theory Spec2Isabelle
  imports Main "HOL-Library.Word" "HOL-Library.Sublist"
begin

unbundle bit_operations_syntax

section \<open>Bytes, slices, statuses\<close>

text \<open>
  A \<^verbatim>\<open>rocksdb::Slice\<close> is modelled by the list of the bytes it still views: consuming a
  byte drops the head, \<^verbatim>\<open>remove_prefix(n)\<close> drops \<open>n\<close> bytes, \<^verbatim>\<open>empty()\<close> is \<open>[]\<close>.
  A \<^verbatim>\<open>KeyBytes\<close> buffer is the list of the bytes appended so far.
\<close>

type_synonym byte = "8 word"
type_synonym bytes = "byte list"
type_synonym DocKeyHash = "16 word"

text \<open>
  A non-OK \<^verbatim>\<open>Status\<close>: its class and the fixed part of its message (the substituted
  details, such as hex dumps and byte counts, are left out). \<open>ReadPastEnd\<close> is not a
  status of the program: it marks a dereference of \<^verbatim>\<open>slice->data()\<close> on an empty slice,
  which reads the byte behind the buffer (undefined behaviour in the source).
\<close>

datatype error = Corruption string | InvalidArgument string | ReadPastEnd

text \<open>\<^verbatim>\<open>RETURN_NOT_OK_PREPEND\<close>: the class stays, the message gets a prefix.\<close>

fun prepend :: "string \<Rightarrow> error \<Rightarrow> error" where
  "prepend p (Corruption m) = Corruption (p @ '': '' @ m)"
| "prepend p (InvalidArgument m) = InvalidArgument (p @ '': '' @ m)"
| "prepend p ReadPastEnd = ReadPastEnd"

datatype DocKeyPart = WHOLE_DOC_KEY | HASHED_PART_ONLY

section \<open>The collaborators that are not part of doc\_key.cc\<close>

text \<open>
  \<^verbatim>\<open>value_type.h\<close>, \<^verbatim>\<open>primitive_value.cc\<close> and \<^verbatim>\<open>doc_hybrid_time.cc\<close> are
  not among the sources. What doc\_key.cc uses of them is a parameter of every
  definition below: the reserved tag bytes, \<^verbatim>\<open>IsPrimitiveValueType\<close>, the primitive
  codec (\<^verbatim>\<open>AppendToKey\<close>, \<^verbatim>\<open>DecodeKey\<close>/\<^verbatim>\<open>DecodeFromKey\<close>, \<^verbatim>\<open>CompareTo\<close>) over a type
  \<open>'v\<close> of primitive values, and the hybrid time (\<^verbatim>\<open>CompareTo\<close>, its key encoding, the
  \<^verbatim>\<open>kInvalid\<close> sentinel) over a type \<open>'h\<close>.

  \<open>DecodeKey\<close> returns the status together with the slice as the call leaves it, also
  when it fails. \<^verbatim>\<open>DecodeKey(slice, nullptr)\<close> is taken to consume the same bytes as
  decoding into a value.
\<close>

record ('v, 'h) codec =
  kGroupEnd :: byte
  kUInt16Hash :: byte
  kHybridTime :: byte
  kMaxByte :: byte
  kIntentPrefix :: byte
  IsPrimitiveValueType :: "byte \<Rightarrow> bool"
  AppendToKey :: "'v \<Rightarrow> bytes"
  DecodeKey :: "bytes \<Rightarrow> (error + 'v) \<times> bytes"
  PrimitiveCompareTo :: "'v \<Rightarrow> 'v \<Rightarrow> int"
  HtCompareTo :: "'h \<Rightarrow> 'h \<Rightarrow> int"
  HtEncode :: "'h \<Rightarrow> bytes"
  kInvalid :: "'h"

text \<open>Modelled from the spec: \<^verbatim>\<open>KeyBytes::AppendValueType\<close> (key\_bytes.h is missing)
  appends the one tag byte.\<close>

definition AppendValueType :: "byte \<Rightarrow> bytes \<Rightarrow> bytes" where
  "AppendValueType t out = out @ [t]"

text \<open>Modelled from the spec: \<^verbatim>\<open>KeyBytes::AppendUInt16\<close> (key\_bytes.h is missing) appends
  the 16-bit hash as two bytes, big-endian.\<close>

definition AppendUInt16 :: "DocKeyHash \<Rightarrow> bytes \<Rightarrow> bytes" where
  "AppendUInt16 x out = out @ [ucast (drop_bit 8 x), ucast x]"

text \<open>Modelled from the spec: \<^verbatim>\<open>BigEndian::Load16\<close> (gutil is missing) reads two bytes,
  the most significant first.\<close>

definition Load16 :: "byte \<Rightarrow> byte \<Rightarrow> DocKeyHash" where
  "Load16 b0 b1 = push_bit 8 (ucast b0) OR ucast b1"

text \<open>Modelled from the spec: \<^verbatim>\<open>AppendDocHybridTime\<close> (doc\_kv\_util.h is missing) appends
  the \<open>HybridTime\<close> tag and the encoded timestamp.\<close>

definition AppendDocHybridTime :: "('v, 'h) codec \<Rightarrow> 'h \<Rightarrow> bytes \<Rightarrow> bytes" where
  "AppendDocHybridTime c ht out = out @ [kHybridTime c] @ HtEncode c ht"

text \<open>Modelled from the spec: \<^verbatim>\<open>CompareUsingLessThan\<close> (compare\_util.h is missing) gives
  \<open>-1\<close>, \<open>0\<close> or \<open>1\<close> from the operands' \<open><\<close>.\<close>

definition CompareUsingLessThan :: "'a::linorder \<Rightarrow> 'a \<Rightarrow> int" where
  "CompareUsingLessThan a b = (if a < b then - 1 else if b < a then 1 else 0)"

text \<open>Modelled from the spec: \<^verbatim>\<open>CompareVectors\<close> (compare\_util.h is missing) compares
  element-wise by the elements' own \<^verbatim>\<open>CompareTo\<close> and returns the first non-zero result;
  when one vector is a leading run of the other, the shorter one is the smaller.\<close>

fun CompareVectors :: "('a \<Rightarrow> 'a \<Rightarrow> int) \<Rightarrow> 'a list \<Rightarrow> 'a list \<Rightarrow> int" where
  "CompareVectors cmp [] [] = 0"
| "CompareVectors cmp [] (b # bs) = - 1"
| "CompareVectors cmp (a # as) [] = 1"
| "CompareVectors cmp (a # as) (b # bs) =
     (let result = cmp a b in if result \<noteq> 0 then result else CompareVectors cmp as bs)"

text \<open>The lexicographic comparison of two byte strings, bytes unsigned
  (\<^verbatim>\<open>Slice::compare\<close>, that is \<^verbatim>\<open>memcmp\<close> and then the lengths): the order of the keys
  inside the storage engine.\<close>

fun byte_compare :: "bytes \<Rightarrow> bytes \<Rightarrow> int" where
  "byte_compare [] [] = 0"
| "byte_compare [] (y # ys) = - 1"
| "byte_compare (x # xs) [] = 1"
| "byte_compare (x # xs) (y # ys) =
     (if x < y then - 1 else if y < x then 1 else byte_compare xs ys)"

section \<open>DocKey\<close>

record 'v DocKey =
  hash_present :: bool
  hash :: DocKeyHash
  hashed_group :: "'v list"
  range_group :: "'v list"

text \<open>\<^verbatim>\<open>AppendDocKeyItems\<close>: the loop appends each item's key encoding to the buffer, then
  the \<open>GroupEnd\<close> tag.\<close>

fun AppendDocKeyItems :: "('v, 'h) codec \<Rightarrow> 'v list \<Rightarrow> bytes \<Rightarrow> bytes" where
  "AppendDocKeyItems c [] result = AppendValueType (kGroupEnd c) result"
| "AppendDocKeyItems c (item # doc_key_items) result =
     AppendDocKeyItems c doc_key_items (result @ AppendToKey c item)"

definition AppendTo :: "('v, 'h) codec \<Rightarrow> 'v DocKey \<Rightarrow> bytes \<Rightarrow> bytes" where
  "AppendTo c k out =
     (let out1 = (if hash_present k
                  then AppendDocKeyItems c (hashed_group k)
                         (AppendUInt16 (hash k) (AppendValueType (kUInt16Hash c) out))
                  else out)
      in AppendDocKeyItems c (range_group k) out1)"

definition DocKey_Encode :: "('v, 'h) codec \<Rightarrow> 'v DocKey \<Rightarrow> bytes" where
  "DocKey_Encode c k = AppendTo c k []"

definition DocKey_Clear :: "'v DocKey \<Rightarrow> 'v DocKey" where
  "DocKey_Clear k = k\<lparr>hash_present := False, hash := 0xdead, hashed_group := [], range_group := []\<rparr>"

text \<open>
  \<^verbatim>\<open>ConsumePrimitiveValuesFromKey\<close> with the callback of the
  \<^verbatim>\<open>std::vector<PrimitiveValue>\<close> overload: \<open>result\<close> is the vector being filled. The
  \<^verbatim>\<open>while (true)\<close> loop ends only through one of its returns; whether the callback consumes
  anything is up to \<open>DecodeKey\<close>, so the function is partial and \<open>None\<close> stands for a loop
  that never returns. The second component is the slice as the call leaves it.
\<close>

partial_function (option) ConsumePrimitiveValuesFromKey ::
  "('v, 'h) codec \<Rightarrow> bytes \<Rightarrow> 'v list \<Rightarrow> ((error + 'v list) \<times> bytes) option" where
  "ConsumePrimitiveValuesFromKey c sl result =
     (case sl of
        [] \<Rightarrow> Some (Inl (Corruption ''Unexpected end of key when decoding document key''), sl)
      | current_value_type # rest \<Rightarrow>
          if current_value_type = kGroupEnd c then Some (Inr result, rest)
          else if \<not> IsPrimitiveValueType c current_value_type
          then Some (Inl (Corruption ''Expected a primitive value type''), sl)
          else (case DecodeKey c sl of
                  (Inl e, sl') \<Rightarrow>
                    Some (Inl (prepend ''while consuming primitive values'' e), sl')
                | (Inr v, sl') \<Rightarrow> ConsumePrimitiveValuesFromKey c sl' (result @ [v])))"

declare ConsumePrimitiveValuesFromKey.simps [code]

text \<open>\<^verbatim>\<open>DecodeFromCallback::SetHash\<close>.\<close>

definition SetHash :: "bool \<Rightarrow> DocKeyHash \<Rightarrow> 'v DocKey \<Rightarrow> 'v DocKey" where
  "SetHash present h k =
     (if present then k\<lparr>hash_present := True, hash := h\<rparr> else k\<lparr>hash_present := False\<rparr>)"

text \<open>The \<^verbatim>\<open>switch (part_to_decode)\<close> at the end of \<^verbatim>\<open>DoDecode\<close>.\<close>

definition DoDecode_part ::
  "('v, 'h) codec \<Rightarrow> DocKeyPart \<Rightarrow> bytes \<Rightarrow> 'v DocKey \<Rightarrow> ((error + 'v DocKey) \<times> bytes) option" where
  "DoDecode_part c part_to_decode sl key =
     (case part_to_decode of
        WHOLE_DOC_KEY \<Rightarrow>
          (case ConsumePrimitiveValuesFromKey c sl (range_group key) of
             None \<Rightarrow> None
           | Some (Inl e, sl') \<Rightarrow>
               Some (Inl (prepend ''Error when decoding range components of a document key'' e),
                     sl')
           | Some (Inr vs, sl') \<Rightarrow> Some (Inr (key\<lparr>range_group := vs\<rparr>), sl'))
      | HASHED_PART_ONLY \<Rightarrow> Some (Inr key, sl))"

text \<open>
  \<^verbatim>\<open>DocKey::DoDecode\<close>, with the callback that fills a DocKey (\<^verbatim>\<open>DecodeFromCallback\<close>);
  \<open>key\<close> is the object being filled and \<open>sl\<close> is the slice. The result is the status
  (the filled key when OK) and the slice as the call leaves it; what a failed call leaves
  in the object is not kept. After the optional \<open>IntentPrefix\<close> byte is consumed the
  source reads \<^verbatim>\<open>*slice->data()\<close> without a second emptiness check: on the empty slice
  that is the read behind the buffer, and the model stops there with \<open>ReadPastEnd\<close>. The
  \<^verbatim>\<open>LOG(FATAL)\<close> behind the \<^verbatim>\<open>switch\<close> is for values outside the enum, which the type
  \<open>DocKeyPart\<close> does not have.
\<close>

definition DoDecode ::
  "('v, 'h) codec \<Rightarrow> bytes \<Rightarrow> DocKeyPart \<Rightarrow> 'v DocKey \<Rightarrow> ((error + 'v DocKey) \<times> bytes) option" where
  "DoDecode c sl0 part_to_decode key =
     (case sl0 of
        [] \<Rightarrow> Some (Inl (Corruption ''Document key is empty''), sl0)
      | b0 # after_b0 \<Rightarrow>
          (let sl = (if b0 = kIntentPrefix c then after_b0 else sl0) in
           case sl of
             [] \<Rightarrow> Some (Inl ReadPastEnd, sl)
           | first_value_type # _ \<Rightarrow>
               if \<not> IsPrimitiveValueType c first_value_type \<and> first_value_type \<noteq> kGroupEnd c
               then Some (Inl (Corruption
                      ''Expected first value type to be primitive or GroupEnd''), sl)
               else if first_value_type = kUInt16Hash c
               then (if length sl \<ge> 2 + 1
                     then (let key1 = SetHash True (Load16 (sl ! 1) (sl ! 2)) key;
                               sl1 = drop (2 + 1) sl in
                           case ConsumePrimitiveValuesFromKey c sl1 (hashed_group key1) of
                             None \<Rightarrow> None
                           | Some (Inl e, sl2) \<Rightarrow>
                               Some (Inl (prepend
                                 ''Error when decoding hashed components of a document key'' e),
                                 sl2)
                           | Some (Inr vs, sl2) \<Rightarrow>
                               DoDecode_part c part_to_decode sl2 (key1\<lparr>hashed_group := vs\<rparr>))
                     else Some (Inl (Corruption
                            ''Could not decode a 16-bit hash component of a document key''),
                            sl))
               else DoDecode_part c part_to_decode sl (SetHash False 0 key)))"

definition DecodeFrom ::
  "('v, 'h) codec \<Rightarrow> bytes \<Rightarrow> DocKeyPart \<Rightarrow> 'v DocKey \<Rightarrow> ((error + 'v DocKey) \<times> bytes) option" where
  "DecodeFrom c sl part_to_decode key = DoDecode c sl part_to_decode (DocKey_Clear key)"

text \<open>\<^verbatim>\<open>DocKey::FullyDecodeFrom\<close>: the status of \<^verbatim>\<open>DecodeFrom\<close> is kept in a variable, the
  emptiness of the slice is tested first, the kept status is returned last.\<close>

definition DocKey_FullyDecodeFrom ::
  "('v, 'h) codec \<Rightarrow> bytes \<Rightarrow> 'v DocKey \<Rightarrow> (error + 'v DocKey) option" where
  "DocKey_FullyDecodeFrom c sl key =
     (case DecodeFrom c sl WHOLE_DOC_KEY key of
        None \<Rightarrow> None
      | Some (status, mutable_slice) \<Rightarrow>
          if mutable_slice \<noteq> []
          then Some (Inl (InvalidArgument
                 ''Expected all bytes of the slice to be decoded into DocKey, found extra bytes''))
          else Some status)"

text \<open>\<^verbatim>\<open>DocKey::EncodedSize\<close>: \<^verbatim>\<open>DoDecode\<close> with the callback that stores nothing
  (\<^verbatim>\<open>DummyCallback\<close>); the result is the distance the slice's begin moved. The bytes
  consumed do not depend on what the callback stores, so the model runs \<open>DoDecode\<close> on a
  key of its own and drops it.\<close>

definition EncodedSize :: "('v, 'h) codec \<Rightarrow> bytes \<Rightarrow> DocKeyPart \<Rightarrow> (error + nat) option" where
  "EncodedSize c sl part =
     (case DoDecode c sl part
             \<lparr>hash_present = False, hash = 0, hashed_group = [], range_group = []\<rparr> of
        None \<Rightarrow> None
      | Some (Inl e, _) \<Rightarrow> Some (Inl e)
      | Some (Inr _, sl') \<Rightarrow> Some (Inr (length sl - length sl')))"

definition HashedComponentsEqual :: "'v DocKey \<Rightarrow> 'v DocKey \<Rightarrow> bool" where
  "HashedComponentsEqual k other \<longleftrightarrow>
     hash_present k = hash_present other \<and>
     (\<not> hash_present k \<or> (hash k = hash other \<and> hashed_group k = hashed_group other))"

text \<open>\<^verbatim>\<open>DocKey::operator ==\<close>.\<close>

definition DocKey_eq :: "'v DocKey \<Rightarrow> 'v DocKey \<Rightarrow> bool" where
  "DocKey_eq k other \<longleftrightarrow> HashedComponentsEqual k other \<and> range_group k = range_group other"

text \<open>\<^verbatim>\<open>DocKey::CompareTo\<close>. The \<^verbatim>\<open>DCHECK_EQ\<close> on the two \<open>hash_present\<close> flags is a
  debug-build assertion and no branch of the function.\<close>

definition DocKey_CompareTo :: "('v, 'h) codec \<Rightarrow> 'v DocKey \<Rightarrow> 'v DocKey \<Rightarrow> int" where
  "DocKey_CompareTo c k other =
     (let result = (if hash_present k then CompareUsingLessThan (hash k) (hash other) else 0) in
      if hash_present k \<and> result \<noteq> 0 then result
      else (let result = CompareVectors (PrimitiveCompareTo c) (hashed_group k) (hashed_group other)
            in if result \<noteq> 0 then result
               else CompareVectors (PrimitiveCompareTo c) (range_group k) (range_group other)))"

section \<open>SubDocKey\<close>

record ('v, 'h) SubDocKey =
  doc_key :: "'v DocKey"
  subkeys :: "'v list"
  doc_ht :: "'h"

text \<open>Modelled from the spec: \<^verbatim>\<open>has_hybrid_time()\<close> (doc\_key.h is missing); an absent
  timestamp is the sentinel \<open>kInvalid\<close>.\<close>

definition has_hybrid_time :: "('v, 'h) codec \<Rightarrow> ('v, 'h) SubDocKey \<Rightarrow> bool" where
  "has_hybrid_time c k \<longleftrightarrow> doc_ht k \<noteq> kInvalid c"

definition num_subkeys :: "('v, 'h) SubDocKey \<Rightarrow> nat" where
  "num_subkeys k = length (subkeys k)"

text \<open>The loop of \<^verbatim>\<open>SubDocKey::Encode\<close> over the subkeys.\<close>

fun AppendSubkeys :: "('v, 'h) codec \<Rightarrow> 'v list \<Rightarrow> bytes \<Rightarrow> bytes" where
  "AppendSubkeys c [] key_bytes = key_bytes"
| "AppendSubkeys c (subkey # rest) key_bytes = AppendSubkeys c rest (key_bytes @ AppendToKey c subkey)"

definition SubDocKey_Encode :: "('v, 'h) codec \<Rightarrow> ('v, 'h) SubDocKey \<Rightarrow> bool \<Rightarrow> bytes" where
  "SubDocKey_Encode c k include_hybrid_time =
     (let key_bytes = AppendSubkeys c (subkeys k) (DocKey_Encode c (doc_key k)) in
      if has_hybrid_time c k \<and> include_hybrid_time
      then AppendDocHybridTime c (doc_ht k) key_bytes
      else key_bytes)"

text \<open>
  \<^verbatim>\<open>std::mismatch(first1, last1, first2)\<close>: the rests of both ranges from the first position
  where they differ. With a shorter second range the C++ reads behind its end; the one
  caller, \<^verbatim>\<open>StartsWith\<close>, tests the lengths before (and so does the model).
\<close>

fun mismatch :: "'a list \<Rightarrow> 'a list \<Rightarrow> 'a list \<times> 'a list" where
  "mismatch [] ys = ([], ys)"
| "mismatch (x # xs) [] = (x # xs, [])"
| "mismatch (x # xs) (y # ys) = (if x = y then mismatch xs ys else (x # xs, y # ys))"

definition StartsWith :: "('v, 'h) codec \<Rightarrow> ('v, 'h) SubDocKey \<Rightarrow> ('v, 'h) SubDocKey \<Rightarrow> bool" where
  "StartsWith c k pre \<longleftrightarrow>
     DocKey_eq (doc_key k) (doc_key pre) \<and>
     (\<not> has_hybrid_time c pre \<or> (doc_ht k = doc_ht pre \<and> num_subkeys pre = num_subkeys k)) \<and>
     num_subkeys pre \<le> num_subkeys k \<and>
     fst (mismatch (subkeys pre) (subkeys k)) = []"

definition CompareToIgnoreHt ::
  "('v, 'h) codec \<Rightarrow> ('v, 'h) SubDocKey \<Rightarrow> ('v, 'h) SubDocKey \<Rightarrow> int" where
  "CompareToIgnoreHt c k other =
     (let result = DocKey_CompareTo c (doc_key k) (doc_key other) in
      if result \<noteq> 0 then result
      else CompareVectors (PrimitiveCompareTo c) (subkeys k) (subkeys other))"

text \<open>\<^verbatim>\<open>SubDocKey::CompareTo\<close>: hybrid times are sorted in reverse order. The results of
  comparisons are C++ \<^verbatim>\<open>int\<close>s, here \<open>int\<close>; the one operation on them is this negation.\<close>

definition SubDocKey_CompareTo ::
  "('v, 'h) codec \<Rightarrow> ('v, 'h) SubDocKey \<Rightarrow> ('v, 'h) SubDocKey \<Rightarrow> int" where
  "SubDocKey_CompareTo c k other =
     (let result = CompareToIgnoreHt c k other in
      if result \<noteq> 0 then result else - HtCompareTo c (doc_ht k) (doc_ht other))"

definition AdvanceOutOfSubDoc :: "('v, 'h) codec \<Rightarrow> ('v, 'h) SubDocKey \<Rightarrow> bytes" where
  "AdvanceOutOfSubDoc c k = AppendValueType (kMaxByte c) (SubDocKey_Encode c k False)"

section \<open>The filter policy's key transformer\<close>

text \<open>\<^verbatim>\<open>HashedComponentsExtractor::Transform\<close>. \<^verbatim>\<open>CHECK_OK(size)\<close> aborts the process on a
  failed status: \<open>Inl\<close> is that abort, with the status that caused it.\<close>

definition Transform :: "('v, 'h) codec \<Rightarrow> bytes \<Rightarrow> (error + bytes) option" where
  "Transform c key =
     (case EncodedSize c key HASHED_PART_ONLY of
        None \<Rightarrow> None
      | Some (Inl e) \<Rightarrow> Some (Inl e)
      | Some (Inr sz) \<Rightarrow> Some (Inr (take sz key)))"

section \<open>The contract of the primitive codec\<close>

text \<open>
  What the key layer consumes from the primitive codec, as predicates on the parameter:
  decoding undoes encoding and stops at the end of the one component; the encoding is
  monotonic in the values' own order; every encoding starts with a tag byte, and the
  reserved tags relate to the primitive tags as the layout needs.
\<close>

definition primitive_decode_inverts_encode :: "('v, 'h) codec \<Rightarrow> bool" where
  "primitive_decode_inverts_encode c \<longleftrightarrow>
     (\<forall>v rest. DecodeKey c (AppendToKey c v @ rest) = (Inr v, rest))"

definition primitive_encoding_order_preserving :: "('v, 'h) codec \<Rightarrow> bool" where
  "primitive_encoding_order_preserving c \<longleftrightarrow>
     (\<forall>a b. sgn (PrimitiveCompareTo c a b) =
            sgn (byte_compare (AppendToKey c a) (AppendToKey c b)))"

text \<open>\<open>GroupEnd\<close> is below the tag of every encoded primitive.\<close>

definition group_end_sorts_first :: "('v, 'h) codec \<Rightarrow> bool" where
  "group_end_sorts_first c \<longleftrightarrow>
     (\<forall>v. case AppendToKey c v of [] \<Rightarrow> False | t # _ \<Rightarrow> kGroupEnd c < t)"

text \<open>\<open>MaxByte\<close> is above the \<open>HybridTime\<close> tag and the tag of every encoded primitive.\<close>

definition max_byte_sorts_last :: "('v, 'h) codec \<Rightarrow> bool" where
  "max_byte_sorts_last c \<longleftrightarrow>
     kHybridTime c < kMaxByte c \<and>
     (\<forall>v. case AppendToKey c v of [] \<Rightarrow> False | t # _ \<Rightarrow> t < kMaxByte c)"

text \<open>
  The tags as the decoder needs them: \<^verbatim>\<open>IsPrimitiveValueType\<close> accepts the \<open>UInt16Hash\<close> tag
  (the hash branch of \<^verbatim>\<open>DoDecode\<close> lies behind that test) and the tag of every encoded
  primitive; \<open>GroupEnd\<close>, \<open>UInt16Hash\<close> and \<open>IntentPrefix\<close> are three different bytes and
  none of them starts an encoded primitive.
\<close>

definition tags_decodable :: "('v, 'h) codec \<Rightarrow> bool" where
  "tags_decodable c \<longleftrightarrow>
     IsPrimitiveValueType c (kUInt16Hash c) \<and>
     kGroupEnd c \<noteq> kUInt16Hash c \<and>
     kIntentPrefix c \<noteq> kGroupEnd c \<and>
     kIntentPrefix c \<noteq> kUInt16Hash c \<and>
     (\<forall>v. case AppendToKey c v of
            [] \<Rightarrow> False
          | t # _ \<Rightarrow> IsPrimitiveValueType c t \<and> t \<noteq> kGroupEnd c \<and> t \<noteq> kUInt16Hash c \<and>
                     t \<noteq> kIntentPrefix c)"

section \<open>An instance of the codec\<close>

text \<open>
  One codec that meets the contract, to run the definitions on: the primitive values are
  byte strings, encoded as in the examples of the comments of doc\_key.cc (the tag \<open>$\<close>,
  the bytes with every zero byte escaped as \<open>00 01\<close>, the terminator \<open>00 00\<close>) and
  ordered as byte strings; \<open>GroupEnd\<close> is \<open>!\<close> and \<open>MaxByte\<close> is \<open>ff\<close> as in those
  comments, and the hash tag is the \<open>H\<close> of those examples. The other tag values and the
  one-byte hybrid time are choices made here.
\<close>

fun ZeroEncode :: "bytes \<Rightarrow> bytes" where
  "ZeroEncode [] = [0, 0]"
| "ZeroEncode (x # xs) = (if x = 0 then [0, 1] else [x]) @ ZeroEncode xs"

definition push_front :: "byte \<Rightarrow> (error + bytes) \<times> bytes \<Rightarrow> (error + bytes) \<times> bytes" where
  "push_front x r = (case r of (Inl e, rest) \<Rightarrow> (Inl e, rest) | (Inr s, rest) \<Rightarrow> (Inr (x # s), rest))"

fun ZeroDecode :: "bytes \<Rightarrow> (error + bytes) \<times> bytes" where
  "ZeroDecode [] = (Inl (Corruption ''Encoded string is not terminated''), [])"
| "ZeroDecode (x # rest) =
     (if x \<noteq> 0 then push_front x (ZeroDecode rest)
      else (case rest of
              [] \<Rightarrow> (Inl (Corruption ''Encoded string ends with only one zero''), [])
            | y # rest' \<Rightarrow>
                if y = 0 then (Inr [], rest')
                else if y = 1 then push_front 0 (ZeroDecode rest')
                else (Inl (Corruption ''Invalid escape in encoded string''), rest)))"

definition example_DecodeKey :: "bytes \<Rightarrow> (error + bytes) \<times> bytes" where
  "example_DecodeKey sl =
     (case sl of
        [] \<Rightarrow> (Inl (Corruption ''Cannot decode a primitive value from an empty slice''), sl)
      | t # rest \<Rightarrow>
          if t = 0x24 then ZeroDecode rest
          else (Inl (Corruption ''Cannot decode value type''), sl))"

definition example_codec :: "(bytes, byte) codec" where
  "example_codec =
     \<lparr>kGroupEnd = 0x21, kUInt16Hash = 0x48, kHybridTime = 0x23, kMaxByte = 0xff,
      kIntentPrefix = 0x0a,
      IsPrimitiveValueType = (\<lambda>t. 0x24 \<le> t \<and> t \<le> 0x7e),
      AppendToKey = (\<lambda>v. 0x24 # ZeroEncode v),
      DecodeKey = example_DecodeKey,
      PrimitiveCompareTo = byte_compare,
      HtCompareTo = CompareUsingLessThan,
      HtEncode = (\<lambda>h. [NOT h]),
      kInvalid = 0\<rparr>"

section \<open>Byte strings and their order\<close>

lemma byte_compare_refl [simp]: "byte_compare xs xs = 0"
  by (induction xs) auto

lemma byte_compare_eq_0: "byte_compare xs ys = 0 \<longleftrightarrow> xs = ys"
  by (induction xs ys rule: byte_compare.induct) auto

lemma byte_compare_append_same [simp]: "byte_compare (p @ xs) (p @ ys) = byte_compare xs ys"
  by (induction p) auto

lemma byte_compare_no_prefix:
  "\<not> prefix xs ys \<Longrightarrow> \<not> prefix ys xs \<Longrightarrow> byte_compare (xs @ s) (ys @ t) = byte_compare xs ys"
  by (induction xs ys rule: byte_compare.induct) auto

lemma unat_low_byte: "unat (ucast (x :: 16 word) :: byte) = unat x mod 256"
  by (simp add: unsigned_ucast_eq take_bit_eq_mod unsigned_take_bit_eq)

lemma unat_high_byte: "unat (ucast (drop_bit 8 (x :: 16 word)) :: byte) = unat x div 256"
proof -
  have "unat x < 65536" using unsigned_less [of x, where ?'a = nat] by simp
  then have "unat x div 256 < 256" by simp
  then show ?thesis
    by (simp add: unsigned_ucast_eq take_bit_eq_mod unat_drop_bit_eq drop_bit_eq_div unat_div)
qed

lemma unat_hash_bytes:
  "unat (x :: 16 word) = unat (ucast (drop_bit 8 x) :: byte) * 256 + unat (ucast x :: byte)"
proof -
  have "unat (ucast (drop_bit 8 x) :: byte) = unat x div 256"
    by (rule unat_high_byte)
  moreover have "unat (ucast x :: byte) = unat x mod 256"
    by (rule unat_low_byte)
  ultimately show ?thesis
    using div_mult_mod_eq [of "unat x" 256] by linarith
qed

text \<open>The two big-endian bytes of the hash compare as the hashes do.\<close>

lemma byte_compare_hash:
  "byte_compare ([ucast (drop_bit 8 x), ucast x] @ s) ([ucast (drop_bit 8 y), ucast y] @ t) =
     (if (x :: 16 word) < y then - 1 else if y < x then 1 else byte_compare s t)"
proof -
  let ?hx = "ucast (drop_bit 8 x) :: byte" and ?lx = "ucast x :: byte"
  let ?hy = "ucast (drop_bit 8 y) :: byte" and ?ly = "ucast y :: byte"
  have lx: "unat ?lx < 256" and ly: "unat ?ly < 256"
    using unsigned_less [of ?lx, where ?'a = nat] unsigned_less [of ?ly, where ?'a = nat] by simp_all
  have x: "unat x = unat ?hx * 256 + unat ?lx" and y: "unat y = unat ?hy * 256 + unat ?ly"
    by (rule unat_hash_bytes)+
  have less: "x < y \<longleftrightarrow> unat ?hx < unat ?hy \<or> (unat ?hx = unat ?hy \<and> unat ?lx < unat ?ly)"
    unfolding word_less_nat_alt x y using lx ly by arith
  have less': "y < x \<longleftrightarrow> unat ?hy < unat ?hx \<or> (unat ?hx = unat ?hy \<and> unat ?ly < unat ?lx)"
    unfolding word_less_nat_alt x y using lx ly by arith
  show ?thesis
    unfolding less less' by (auto simp: word_less_nat_alt)
qed

lemma Load16_AppendUInt16: "Load16 (ucast (drop_bit 8 x)) (ucast x) = x"
  unfolding Load16_def by (rule bit_word_eqI) (auto simp add: bit_simps)

section \<open>The encoders in closed form\<close>

lemma AppendDocKeyItems_eq:
  "AppendDocKeyItems c items out = out @ concat (map (AppendToKey c) items) @ [kGroupEnd c]"
  by (induction items arbitrary: out) (auto simp: AppendValueType_def)

lemma AppendSubkeys_eq:
  "AppendSubkeys c items out = out @ concat (map (AppendToKey c) items)"
  by (induction items arbitrary: out) auto

lemma DocKey_Encode_eq:
  "DocKey_Encode c k =
     (if hash_present k
      then [kUInt16Hash c, ucast (drop_bit 8 (hash k)), ucast (hash k)] @
           concat (map (AppendToKey c) (hashed_group k)) @ [kGroupEnd c]
      else []) @
     concat (map (AppendToKey c) (range_group k)) @ [kGroupEnd c]"
  by (simp add: DocKey_Encode_def AppendTo_def AppendDocKeyItems_eq AppendUInt16_def
      AppendValueType_def)

section \<open>The example codec meets the contract\<close>

lemma ZeroDecode_ZeroEncode: "ZeroDecode (ZeroEncode s @ rest) = (Inr s, rest)"
  by (induction s) (auto simp: push_front_def)

lemma byte_compare_ZeroEncode:
  "byte_compare (ZeroEncode a) (ZeroEncode b) = byte_compare a b"
  by (induction a b rule: byte_compare.induct) (auto simp: word_gt_0)

lemma example_decode_inverts_encode: "primitive_decode_inverts_encode example_codec"
  by (simp add: primitive_decode_inverts_encode_def example_codec_def example_DecodeKey_def
      ZeroDecode_ZeroEncode)

lemma example_order_preserving: "primitive_encoding_order_preserving example_codec"
  by (simp add: primitive_encoding_order_preserving_def example_codec_def
      byte_compare_ZeroEncode)

lemma example_group_end_sorts_first: "group_end_sorts_first example_codec"
  by (simp add: group_end_sorts_first_def example_codec_def)

lemma example_max_byte_sorts_last: "max_byte_sorts_last example_codec"
  by (simp add: max_byte_sorts_last_def example_codec_def)

lemma example_tags_decodable: "tags_decodable example_codec"
  by (simp add: tags_decodable_def example_codec_def)

section \<open>Decoding what was encoded\<close>

lemma tags_decodable_tag:
  assumes "tags_decodable c"
  obtains t p where "AppendToKey c v = t # p" "IsPrimitiveValueType c t" "t \<noteq> kGroupEnd c"
    "t \<noteq> kUInt16Hash c" "t \<noteq> kIntentPrefix c"
proof -
  from assms have "case AppendToKey c v of [] \<Rightarrow> False
     | t # _ \<Rightarrow> IsPrimitiveValueType c t \<and> t \<noteq> kGroupEnd c \<and> t \<noteq> kUInt16Hash c \<and> t \<noteq> kIntentPrefix c"
    unfolding tags_decodable_def by blast
  then show thesis using that by (cases "AppendToKey c v") auto
qed

lemma Consume_encoded:
  assumes dec: "primitive_decode_inverts_encode c" and tags: "tags_decodable c"
  shows "ConsumePrimitiveValuesFromKey c (concat (map (AppendToKey c) vs) @ kGroupEnd c # rest) acc
         = Some (Inr (acc @ vs), rest)"
proof (induction vs arbitrary: acc)
  case Nil
  show ?case by (subst ConsumePrimitiveValuesFromKey.simps) simp
next
  case (Cons v vs)
  obtain t p where tp: "AppendToKey c v = t # p" "IsPrimitiveValueType c t" "t \<noteq> kGroupEnd c"
    using tags by (rule tags_decodable_tag)
  let ?tail = "concat (map (AppendToKey c) vs) @ kGroupEnd c # rest"
  have d: "DecodeKey c (t # p @ ?tail) = (Inr v, ?tail)"
    using dec tp(1) unfolding primitive_decode_inverts_encode_def
    by (metis append_Cons)
  show ?case
    by (subst ConsumePrimitiveValuesFromKey.simps) (simp add: tp d Cons.IH)
qed

lemma DoDecode_part_whole_encoded:
  assumes dec: "primitive_decode_inverts_encode c" and tags: "tags_decodable c"
  shows "DoDecode_part c WHOLE_DOC_KEY (concat (map (AppendToKey c) vs) @ kGroupEnd c # rest) key
         = Some (Inr (key\<lparr>range_group := range_group key @ vs\<rparr>), rest)"
  by (simp add: DoDecode_part_def Consume_encoded [OF dec tags])

text \<open>The first byte of an encoded range group: a primitive tag or GroupEnd, never
  IntentPrefix or UInt16Hash.\<close>

lemma range_bytes_first:
  assumes tags: "tags_decodable c"
  obtains b bs where "concat (map (AppendToKey c) vs) @ kGroupEnd c # rest = b # bs"
    "b \<noteq> kIntentPrefix c" "b \<noteq> kUInt16Hash c" "IsPrimitiveValueType c b \<or> b = kGroupEnd c"
proof (cases vs)
  case Nil
  with tags that show thesis by (auto simp: tags_decodable_def)
next
  case (Cons v vs')
  obtain t p where "AppendToKey c v = t # p" "IsPrimitiveValueType c t" "t \<noteq> kGroupEnd c"
    "t \<noteq> kUInt16Hash c" "t \<noteq> kIntentPrefix c"
    using tags by (rule tags_decodable_tag)
  with Cons that show thesis by auto
qed

lemma DoDecode_no_hash:
  assumes "b \<noteq> kIntentPrefix c" "b \<noteq> kUInt16Hash c" "IsPrimitiveValueType c b \<or> b = kGroupEnd c"
  shows "DoDecode c (b # bs) part key = DoDecode_part c part (b # bs) (SetHash False 0 key)"
  using assms by (auto simp: DoDecode_def)

lemma DoDecode_hash:
  assumes tags: "tags_decodable c"
  shows "DoDecode c (kUInt16Hash c # h1 # h0 # bs) part key =
    (case ConsumePrimitiveValuesFromKey c bs (hashed_group key) of
       None \<Rightarrow> None
     | Some (Inl e, sl2) \<Rightarrow>
         Some (Inl (prepend ''Error when decoding hashed components of a document key'' e), sl2)
     | Some (Inr vs, sl2) \<Rightarrow>
         DoDecode_part c part sl2 (key\<lparr>hash_present := True, hash := Load16 h1 h0, hashed_group := vs\<rparr>))"
proof -
  from tags have "kUInt16Hash c \<noteq> kIntentPrefix c" "IsPrimitiveValueType c (kUInt16Hash c)"
    by (auto simp: tags_decodable_def)
  then show ?thesis
    by (simp add: DoDecode_def SetHash_def)
qed

lemma DoDecode_encoded_whole:
  assumes dec: "primitive_decode_inverts_encode c" and tags: "tags_decodable c"
  shows "DoDecode c (DocKey_Encode c k @ rest) WHOLE_DOC_KEY key =
     Some (Inr (if hash_present k
                then key\<lparr>hash_present := True, hash := hash k,
                         hashed_group := hashed_group key @ hashed_group k,
                         range_group := range_group key @ range_group k\<rparr>
                else key\<lparr>hash_present := False,
                         range_group := range_group key @ range_group k\<rparr>), rest)"
proof (cases "hash_present k")
  case True
  then show ?thesis
    by (simp add: DocKey_Encode_eq DoDecode_hash [OF tags] Consume_encoded [OF dec tags]
        DoDecode_part_whole_encoded [OF dec tags] Load16_AppendUInt16)
next
  case False
  obtain b bs where b: "concat (map (AppendToKey c) (range_group k)) @ kGroupEnd c # rest = b # bs"
    "b \<noteq> kIntentPrefix c" "b \<noteq> kUInt16Hash c" "IsPrimitiveValueType c b \<or> b = kGroupEnd c"
    using tags by (rule range_bytes_first)
  have "DoDecode c (concat (map (AppendToKey c) (range_group k)) @ kGroupEnd c # rest) WHOLE_DOC_KEY key
      = DoDecode_part c WHOLE_DOC_KEY (concat (map (AppendToKey c) (range_group k)) @ kGroupEnd c # rest)
          (SetHash False 0 key)"
    unfolding b(1) using b(2-4) by (rule DoDecode_no_hash)
  with False show ?thesis
    by (simp add: DocKey_Encode_eq DoDecode_part_whole_encoded [OF dec tags] SetHash_def)
qed

lemma DoDecode_encoded_hashed_part:
  assumes dec: "primitive_decode_inverts_encode c" and tags: "tags_decodable c"
  shows "DoDecode c (DocKey_Encode c k @ rest) HASHED_PART_ONLY key =
     (if hash_present k
      then Some (Inr (key\<lparr>hash_present := True, hash := hash k,
                          hashed_group := hashed_group key @ hashed_group k\<rparr>),
                 concat (map (AppendToKey c) (range_group k)) @ kGroupEnd c # rest)
      else Some (Inr (key\<lparr>hash_present := False\<rparr>), DocKey_Encode c k @ rest))"
proof (cases "hash_present k")
  case True
  then show ?thesis
    by (simp add: DocKey_Encode_eq DoDecode_hash [OF tags] Consume_encoded [OF dec tags]
        DoDecode_part_def Load16_AppendUInt16)
next
  case False
  obtain b bs where b: "concat (map (AppendToKey c) (range_group k)) @ kGroupEnd c # rest = b # bs"
    "b \<noteq> kIntentPrefix c" "b \<noteq> kUInt16Hash c" "IsPrimitiveValueType c b \<or> b = kGroupEnd c"
    using tags by (rule range_bytes_first)
  have "DoDecode c (concat (map (AppendToKey c) (range_group k)) @ kGroupEnd c # rest) HASHED_PART_ONLY key
      = DoDecode_part c HASHED_PART_ONLY (concat (map (AppendToKey c) (range_group k)) @ kGroupEnd c # rest)
          (SetHash False 0 key)"
    unfolding b(1) using b(2-4) by (rule DoDecode_no_hash)
  with False show ?thesis
    by (simp add: DocKey_Encode_eq DoDecode_part_def SetHash_def)
qed

section \<open>The order of the encoded bytes\<close>

lemma encoding_self_delimiting:
  assumes dec: "primitive_decode_inverts_encode c"
    and eq: "AppendToKey c a @ s = AppendToKey c b @ t"
  shows "a = b \<and> s = t"
proof -
  have a: "DecodeKey c (AppendToKey c a @ s) = (Inr a, s)"
    and b: "DecodeKey c (AppendToKey c b @ t) = (Inr b, t)"
    using dec unfolding primitive_decode_inverts_encode_def by blast+
  from a have "DecodeKey c (AppendToKey c b @ t) = (Inr a, s)"
    by (simp only: eq)
  with b have "(Inr a :: error + 'a, s) = (Inr b, t)" by (simp only:)
  then show ?thesis by simp
qed

lemma encoding_no_prefix:
  assumes dec: "primitive_decode_inverts_encode c"
    and ne: "AppendToKey c a \<noteq> AppendToKey c b"
  shows "\<not> prefix (AppendToKey c a) (AppendToKey c b)"
proof
  assume "prefix (AppendToKey c a) (AppendToKey c b)"
  then obtain z where "AppendToKey c b = AppendToKey c a @ z" by (auto simp: prefix_def)
  then have "AppendToKey c a @ z = AppendToKey c b @ []" by simp
  with dec have "a = b" by (blast dest: encoding_self_delimiting)
  with ne show False by simp
qed

lemma primitive_compare_bytes:
  assumes dec: "primitive_decode_inverts_encode c"
    and ord: "primitive_encoding_order_preserving c"
    and ne: "PrimitiveCompareTo c a b \<noteq> 0"
  shows "sgn (byte_compare (AppendToKey c a @ s) (AppendToKey c b @ t)) = sgn (PrimitiveCompareTo c a b)"
proof -
  from ord have s: "sgn (PrimitiveCompareTo c a b) = sgn (byte_compare (AppendToKey c a) (AppendToKey c b))"
    unfolding primitive_encoding_order_preserving_def by blast
  with ne have "byte_compare (AppendToKey c a) (AppendToKey c b) \<noteq> 0"
    by (auto simp: sgn_eq_0_iff)
  then have "AppendToKey c a \<noteq> AppendToKey c b" by auto
  then have "\<not> prefix (AppendToKey c a) (AppendToKey c b)" "\<not> prefix (AppendToKey c b) (AppendToKey c a)"
    using encoding_no_prefix [OF dec, of a b] encoding_no_prefix [OF dec, of b a] by auto
  then have "byte_compare (AppendToKey c a @ s) (AppendToKey c b @ t)
      = byte_compare (AppendToKey c a) (AppendToKey c b)"
    by (rule byte_compare_no_prefix)
  with s show ?thesis by simp
qed

lemma primitive_compare_0:
  assumes ord: "primitive_encoding_order_preserving c"
    and eq: "PrimitiveCompareTo c a b = 0"
  shows "AppendToKey c a = AppendToKey c b"
proof -
  from ord have "sgn (PrimitiveCompareTo c a b) = sgn (byte_compare (AppendToKey c a) (AppendToKey c b))"
    unfolding primitive_encoding_order_preserving_def by blast
  with eq have "byte_compare (AppendToKey c a) (AppendToKey c b) = 0" by (simp add: sgn_eq_0_iff)
  then show ?thesis by (simp add: byte_compare_eq_0)
qed

lemma group_end_below:
  assumes "group_end_sorts_first c"
  obtains t p where "AppendToKey c v = t # p" "kGroupEnd c < t"
proof -
  from assms have "case AppendToKey c v of [] \<Rightarrow> False | t # _ \<Rightarrow> kGroupEnd c < t"
    unfolding group_end_sorts_first_def by blast
  then show thesis using that by (cases "AppendToKey c v") auto
qed

lemma CompareVectors_bytes:
  assumes dec: "primitive_decode_inverts_encode c"
    and ord: "primitive_encoding_order_preserving c"
    and ge: "group_end_sorts_first c"
  shows "(CompareVectors (PrimitiveCompareTo c) xs ys \<noteq> 0 \<longrightarrow>
           sgn (byte_compare (concat (map (AppendToKey c) xs) @ kGroupEnd c # s)
                             (concat (map (AppendToKey c) ys) @ kGroupEnd c # t))
           = sgn (CompareVectors (PrimitiveCompareTo c) xs ys)) \<and>
         (CompareVectors (PrimitiveCompareTo c) xs ys = 0 \<longrightarrow>
           concat (map (AppendToKey c) xs) = concat (map (AppendToKey c) ys))"
proof (induction "PrimitiveCompareTo c" xs ys rule: CompareVectors.induct)
  case 1
  show ?case by simp
next
  case (2 b bs)
  obtain u p where "AppendToKey c b = u # p" "kGroupEnd c < u"
    using ge by (rule group_end_below)
  then show ?case by simp
next
  case (3 a as)
  obtain u p where "AppendToKey c a = u # p" "kGroupEnd c < u"
    using ge by (rule group_end_below)
  then show ?case by (auto simp: not_less_iff_gr_or_eq)
next
  case (4 a as b bs)
  show ?case
  proof (cases "PrimitiveCompareTo c a b = 0")
    case True
    then have "AppendToKey c a = AppendToKey c b"
      using ord by (simp add: primitive_compare_0)
    with True 4 show ?thesis by simp
  next
    case False
    then show ?thesis
      using primitive_compare_bytes [OF dec ord False] by simp
  qed
qed

lemma group_then_rest:
  assumes dec: "primitive_decode_inverts_encode c"
    and ord: "primitive_encoding_order_preserving c"
    and ge: "group_end_sorts_first c"
  shows "sgn (byte_compare (concat (map (AppendToKey c) xs) @ kGroupEnd c # s)
                           (concat (map (AppendToKey c) ys) @ kGroupEnd c # t)) =
         (if CompareVectors (PrimitiveCompareTo c) xs ys \<noteq> 0
          then sgn (CompareVectors (PrimitiveCompareTo c) xs ys)
          else sgn (byte_compare s t))"
proof (cases "CompareVectors (PrimitiveCompareTo c) xs ys = 0")
  case True
  then have "concat (map (AppendToKey c) xs) = concat (map (AppendToKey c) ys)"
    using CompareVectors_bytes [OF dec ord ge] by blast
  with True show ?thesis by simp
next
  case False
  then show ?thesis
    using CompareVectors_bytes [OF dec ord ge, of xs ys s t] by simp
qed

lemma byte_compare_hash_Cons:
  "byte_compare (ucast (drop_bit 8 x) # ucast x # s) (ucast (drop_bit 8 y) # ucast y # t) =
     (if (x :: 16 word) < y then - 1 else if y < x then 1 else byte_compare s t)"
  using byte_compare_hash [of x s y t] by simp

lemma high_byte_div: "(ucast (drop_bit 8 (x :: 16 word)) :: byte) = of_nat (unat x div 256)"
proof -
  have "(of_nat (unat (ucast (drop_bit 8 x) :: byte)) :: byte) = ucast (drop_bit 8 x)"
    by simp
  then show ?thesis by (simp only: unat_high_byte)
qed

lemma low_byte_mod: "(ucast (x :: 16 word) :: byte) = of_nat (unat x mod 256)"
proof -
  have "(of_nat (unat (ucast x :: byte)) :: byte) = ucast x"
    by simp
  then show ?thesis by (simp only: unat_low_byte)
qed

lemma byte_compare_Cons_same: "byte_compare (a # xs) (a # ys) = byte_compare xs ys"
  by simp

section \<open>The layout of an encoded DocKey\<close>

text \<open>
  Claim C6. \<^verbatim>\<open>DocKey::Encode\<close> produces exactly: when the hash is present, the
  \<open>UInt16Hash\<close> tag, the two bytes of the hash with the most significant first, the key
  encoding of each item of the hashed group in order, and \<open>GroupEnd\<close>; then, in every
  case, the key encoding of each item of the range group in order, and \<open>GroupEnd\<close>;
  and nothing else.
\<close>

theorem DocKey_Encode_layout:
  "DocKey_Encode c k =
     (if hash_present k
      then [kUInt16Hash c, of_nat (unat (hash k) div 256), of_nat (unat (hash k) mod 256)] @
           concat (map (AppendToKey c) (hashed_group k)) @ [kGroupEnd c]
      else []) @
     concat (map (AppendToKey c) (range_group k)) @ [kGroupEnd c]"
proof -
  have hi: "(ucast (drop_bit 8 (hash k)) :: byte) = of_nat (unat (hash k) div 256)"
    by (rule high_byte_div)
  have lo: "(ucast (hash k) :: byte) = of_nat (unat (hash k) mod 256)"
    by (rule low_byte_mod)
  show ?thesis
    unfolding DocKey_Encode_eq hi lo by (rule refl)
qed

text \<open>The scenario of the comments in doc\_key.cc: hash \<open>0x1234\<close>, hashed group
  \<open>aa\<close>, \<open>bb\<close>, range group \<open>cc\<close>, \<open>dd\<close>.\<close>

theorem DocKey_Encode_layout_witness:
  "DocKey_Encode example_codec
     \<lparr>hash_present = True, hash = 0x1234,
      hashed_group = [[0x61, 0x61], [0x62, 0x62]],
      range_group = [[0x63, 0x63], [0x64, 0x64]]\<rparr> =
   [0x48, 0x12, 0x34,
    0x24, 0x61, 0x61, 0, 0, 0x24, 0x62, 0x62, 0, 0, 0x21,
    0x24, 0x63, 0x63, 0, 0, 0x24, 0x64, 0x64, 0, 0, 0x21]"
  using DocKey_Encode_layout [of example_codec
     "\<lparr>hash_present = True, hash = 0x1234,
      hashed_group = [[0x61, 0x61], [0x62, 0x62]],
      range_group = [[0x63, 0x63], [0x64, 0x64]]\<rparr>"]
  by (simp add: example_codec_def)

section \<open>Decoding an encoded DocKey\<close>

text \<open>
  Claim C2. For a codec whose decoder undoes its encoder and whose tags are as the
  decoder needs them, \<^verbatim>\<open>DecodeFrom\<close> on the encoding of any DocKey \<open>k\<close> returns OK and
  leaves the slice empty, \<^verbatim>\<open>FullyDecodeFrom\<close> returns OK, and the decoded key equals
  \<open>k\<close> by \<^verbatim>\<open>operator==\<close>: it has the flag, the range group and, when the hash is
  present, the hash and the hashed group of \<open>k\<close> (with the hash absent it has what
  \<^verbatim>\<open>Clear\<close> leaves in the fields that \<^verbatim>\<open>operator==\<close> then does not read). \<open>key\<close> is
  the object decoded into, in any state.
\<close>

theorem DocKey_roundtrip:
  assumes dec: "primitive_decode_inverts_encode c" and tags: "tags_decodable c"
  shows "let k' = \<lparr>hash_present = hash_present k,
                    hash = (if hash_present k then hash k else 0xdead),
                    hashed_group = (if hash_present k then hashed_group k else []),
                    range_group = range_group k\<rparr>
         in DecodeFrom c (DocKey_Encode c k) WHOLE_DOC_KEY key = Some (Inr k', []) \<and>
            DocKey_FullyDecodeFrom c (DocKey_Encode c k) key = Some (Inr k') \<and>
            DocKey_eq k' k"
proof -
  have "DecodeFrom c (DocKey_Encode c k @ []) WHOLE_DOC_KEY key =
      Some (Inr \<lparr>hash_present = hash_present k,
                 hash = (if hash_present k then hash k else 0xdead),
                 hashed_group = (if hash_present k then hashed_group k else []),
                 range_group = range_group k\<rparr>, [])"
    unfolding DecodeFrom_def DoDecode_encoded_whole [OF dec tags]
    by (simp add: DocKey_Clear_def)
  then show ?thesis
    by (simp add: DocKey_FullyDecodeFrom_def DocKey_eq_def HashedComponentsEqual_def)
qed

theorem DocKey_roundtrip_witness:
  "primitive_decode_inverts_encode example_codec \<and> tags_decodable example_codec \<and>
   DecodeFrom example_codec
     (DocKey_Encode example_codec
        \<lparr>hash_present = True, hash = 0x1234, hashed_group = [[0x61, 0x61], [0x62, 0x62]],
         range_group = [[0x63, 0x63], [0x64, 0x64]]\<rparr>) WHOLE_DOC_KEY
     \<lparr>hash_present = False, hash = 0, hashed_group = [[7]], range_group = []\<rparr> =
   Some (Inr \<lparr>hash_present = True, hash = 0x1234, hashed_group = [[0x61, 0x61], [0x62, 0x62]],
         range_group = [[0x63, 0x63], [0x64, 0x64]]\<rparr>, []) \<and>
   DocKey_FullyDecodeFrom example_codec
     (DocKey_Encode example_codec
        \<lparr>hash_present = True, hash = 0x1234, hashed_group = [[0x61, 0x61], [0x62, 0x62]],
         range_group = [[0x63, 0x63], [0x64, 0x64]]\<rparr>)
     \<lparr>hash_present = False, hash = 0, hashed_group = [[7]], range_group = []\<rparr> =
   Some (Inr \<lparr>hash_present = True, hash = 0x1234, hashed_group = [[0x61, 0x61], [0x62, 0x62]],
         range_group = [[0x63, 0x63], [0x64, 0x64]]\<rparr>)"
  using DocKey_roundtrip [OF example_decode_inverts_encode example_tags_decodable,
      of "\<lparr>hash_present = True, hash = 0x1234, hashed_group = [[0x61, 0x61], [0x62, 0x62]],
         range_group = [[0x63, 0x63], [0x64, 0x64]]\<rparr>"
         "\<lparr>hash_present = False, hash = 0, hashed_group = [[7]], range_group = []\<rparr>"]
    example_decode_inverts_encode example_tags_decodable
  by (simp add: Let_def)

lemma CompareVectors_same:
  assumes "\<And>v. cmp v v = 0"
  shows "CompareVectors cmp xs xs = 0"
  using assms by (induction xs) simp_all

lemma mismatch_prefix: "fst (mismatch xs ys) = [] \<longleftrightarrow> prefix xs ys"
  by (induction xs ys rule: mismatch.induct) auto

section \<open>The order of DocKeys and the order of their encodings\<close>

text \<open>
  Claim C1 says that for two DocKeys with equal \<open>hash_present\<close> the sign of
  \<^verbatim>\<open>CompareTo\<close> is the sign of the lexicographic byte comparison of their encodings.
  \<^verbatim>\<open>CompareTo\<close> guards only the comparison of the hashes with \<open>hash_present\<close> and
  compares the hashed groups in every case, while \<^verbatim>\<open>AppendTo\<close> encodes the hashed group
  and \<^verbatim>\<open>operator==\<close> reads it only when the hash is present. So for two keys without a
  hash, with the same range group and hashed groups that compare unequal, the keys are
  equal by \<^verbatim>\<open>operator==\<close> and their encodings are the same bytes, and \<^verbatim>\<open>CompareTo\<close>
  still returns what the comparison of the hashed groups gives: its sign is not the sign
  of the byte comparison.
\<close>

theorem DocKey_CompareTo_reads_unencoded_hashed_group:
  assumes a1: "\<not> hash_present k1" and a2: "\<not> hash_present k2"
    and r: "range_group k1 = range_group k2"
    and h: "CompareVectors (PrimitiveCompareTo c) (hashed_group k1) (hashed_group k2) \<noteq> 0"
  shows "DocKey_eq k1 k2 \<and>
         DocKey_Encode c k1 = DocKey_Encode c k2 \<and>
         DocKey_CompareTo c k1 k2 =
           CompareVectors (PrimitiveCompareTo c) (hashed_group k1) (hashed_group k2) \<and>
         sgn (DocKey_CompareTo c k1 k2) \<noteq>
           sgn (byte_compare (DocKey_Encode c k1) (DocKey_Encode c k2))"
proof -
  have eq: "DocKey_eq k1 k2"
    using a1 a2 r by (simp add: DocKey_eq_def HashedComponentsEqual_def)
  have enc: "DocKey_Encode c k1 = DocKey_Encode c k2"
    using a1 a2 r by (simp add: DocKey_Encode_eq)
  have cmp: "DocKey_CompareTo c k1 k2 =
      CompareVectors (PrimitiveCompareTo c) (hashed_group k1) (hashed_group k2)"
    using a1 h by (simp add: DocKey_CompareTo_def Let_def)
  have "sgn (DocKey_CompareTo c k1 k2) \<noteq> 0"
    using h cmp by (simp add: sgn_eq_0_iff)
  moreover have "sgn (byte_compare (DocKey_Encode c k1) (DocKey_Encode c k2)) = 0"
    by (simp add: enc)
  ultimately show ?thesis
    using eq enc cmp by simp
qed

text \<open>
  Two keys without a hash and with the hashed groups \<open>[01]\<close> and \<open>[02]\<close>, as
  \<^verbatim>\<open>FromKuduEncodedKey\<close> builds them from a hash column that is not \<open>INT32\<close>: both
  encode as the one \<open>GroupEnd\<close> byte, and \<^verbatim>\<open>CompareTo\<close> returns \<open>-1\<close>. The codec is
  order-preserving.
\<close>

theorem DocKey_CompareTo_reads_unencoded_hashed_group_witness:
  "primitive_encoding_order_preserving example_codec \<and>
   DocKey_eq \<lparr>hash_present = False, hash = 0, hashed_group = [[1 :: byte]], range_group = []\<rparr>
             \<lparr>hash_present = False, hash = 0, hashed_group = [[2]], range_group = []\<rparr> \<and>
   DocKey_Encode example_codec
     \<lparr>hash_present = False, hash = 0, hashed_group = [[1]], range_group = []\<rparr> = [0x21] \<and>
   DocKey_Encode example_codec
     \<lparr>hash_present = False, hash = 0, hashed_group = [[2]], range_group = []\<rparr> = [0x21] \<and>
   DocKey_CompareTo example_codec
     \<lparr>hash_present = False, hash = 0, hashed_group = [[1]], range_group = []\<rparr>
     \<lparr>hash_present = False, hash = 0, hashed_group = [[2]], range_group = []\<rparr> = - 1 \<and>
   sgn (DocKey_CompareTo example_codec
          \<lparr>hash_present = False, hash = 0, hashed_group = [[1]], range_group = []\<rparr>
          \<lparr>hash_present = False, hash = 0, hashed_group = [[2]], range_group = []\<rparr>) \<noteq>
   sgn (byte_compare
          (DocKey_Encode example_codec
             \<lparr>hash_present = False, hash = 0, hashed_group = [[1]], range_group = []\<rparr>)
          (DocKey_Encode example_codec
             \<lparr>hash_present = False, hash = 0, hashed_group = [[2]], range_group = []\<rparr>))"
proof -
  have h: "CompareVectors (PrimitiveCompareTo example_codec) [[1]] [[2]] \<noteq> 0"
    by (simp add: example_codec_def)
  have e1: "DocKey_Encode example_codec
     \<lparr>hash_present = False, hash = 0, hashed_group = [[1]], range_group = []\<rparr> = [0x21]"
    and e2: "DocKey_Encode example_codec
     \<lparr>hash_present = False, hash = 0, hashed_group = [[2]], range_group = []\<rparr> = [0x21]"
    by (simp_all add: DocKey_Encode_eq example_codec_def)
  have c: "CompareVectors (PrimitiveCompareTo example_codec) [[1]] [[2]] = - 1"
    by (simp add: example_codec_def)
  from DocKey_CompareTo_reads_unencoded_hashed_group [of
      "\<lparr>hash_present = False, hash = 0, hashed_group = [[1]], range_group = []\<rparr>"
      "\<lparr>hash_present = False, hash = 0, hashed_group = [[2]], range_group = []\<rparr>"
      example_codec] h
  show ?thesis
    using example_order_preserving e1 e2 c by simp
qed

text \<open>
  Where the hashed groups compare equal whenever the hash is absent (as the empty groups
  that the constructors without a hash, \<^verbatim>\<open>Clear\<close> and the decoder leave do), the two
  orders agree: for a primitive codec that is order-preserving and self-delimiting, with
  \<open>GroupEnd\<close> below every primitive tag, the sign of \<^verbatim>\<open>CompareTo\<close> is the sign of the
  byte comparison of the encodings.
\<close>

theorem DocKey_CompareTo_matches_byte_order:
  assumes dec: "primitive_decode_inverts_encode c"
    and ord: "primitive_encoding_order_preserving c"
    and ge: "group_end_sorts_first c"
    and same: "hash_present k1 = hash_present k2"
    and hashed: "\<not> hash_present k1 \<longrightarrow>
       CompareVectors (PrimitiveCompareTo c) (hashed_group k1) (hashed_group k2) = 0"
  shows "sgn (DocKey_CompareTo c k1 k2) =
         sgn (byte_compare (DocKey_Encode c k1) (DocKey_Encode c k2))"
proof (cases "hash_present k1")
  case True
  with same have p2: "hash_present k2" by simp
  show ?thesis
    using True p2
    by (simp add: DocKey_Encode_eq DocKey_CompareTo_def CompareUsingLessThan_def
        byte_compare_Cons_same byte_compare_hash_Cons group_then_rest [OF dec ord ge] Let_def
        del: byte_compare.simps)
next
  case False
  with same have p2: "\<not> hash_present k2" by simp
  from False hashed
  have h0: "CompareVectors (PrimitiveCompareTo c) (hashed_group k1) (hashed_group k2) = 0"
    by simp
  have "sgn (byte_compare (concat (map (AppendToKey c) (range_group k1)) @ kGroupEnd c # [])
                          (concat (map (AppendToKey c) (range_group k2)) @ kGroupEnd c # [])) =
        sgn (CompareVectors (PrimitiveCompareTo c) (range_group k1) (range_group k2))"
    unfolding group_then_rest [OF dec ord ge] by simp
  then show ?thesis
    using False p2 h0
    by (simp add: DocKey_Encode_eq DocKey_CompareTo_def Let_def)
qed

text \<open>Two range-only keys, one a leading run of the other; two keys with a hash, which
  decides.\<close>

theorem DocKey_CompareTo_matches_byte_order_witness:
  "primitive_decode_inverts_encode example_codec \<and>
   primitive_encoding_order_preserving example_codec \<and>
   group_end_sorts_first example_codec \<and>
   CompareVectors (PrimitiveCompareTo example_codec) [] [] = 0 \<and>
   sgn (DocKey_CompareTo example_codec
          \<lparr>hash_present = False, hash = 0, hashed_group = [], range_group = [[0x63]]\<rparr>
          \<lparr>hash_present = False, hash = 0, hashed_group = [], range_group = [[0x63], [0x01]]\<rparr>) =
   sgn (byte_compare
          (DocKey_Encode example_codec
             \<lparr>hash_present = False, hash = 0, hashed_group = [], range_group = [[0x63]]\<rparr>)
          (DocKey_Encode example_codec
             \<lparr>hash_present = False, hash = 0, hashed_group = [], range_group = [[0x63], [0x01]]\<rparr>)) \<and>
   DocKey_CompareTo example_codec
          \<lparr>hash_present = False, hash = 0, hashed_group = [], range_group = [[0x63]]\<rparr>
          \<lparr>hash_present = False, hash = 0, hashed_group = [], range_group = [[0x63], [0x01]]\<rparr> = - 1 \<and>
   sgn (DocKey_CompareTo example_codec
          \<lparr>hash_present = True, hash = 0x1300, hashed_group = [[0x61]], range_group = [[0x63]]\<rparr>
          \<lparr>hash_present = True, hash = 0x12ff, hashed_group = [[0x62]], range_group = []\<rparr>) =
   sgn (byte_compare
          (DocKey_Encode example_codec
             \<lparr>hash_present = True, hash = 0x1300, hashed_group = [[0x61]], range_group = [[0x63]]\<rparr>)
          (DocKey_Encode example_codec
             \<lparr>hash_present = True, hash = 0x12ff, hashed_group = [[0x62]], range_group = []\<rparr>)) \<and>
   DocKey_CompareTo example_codec
          \<lparr>hash_present = True, hash = 0x1300, hashed_group = [[0x61]], range_group = [[0x63]]\<rparr>
          \<lparr>hash_present = True, hash = 0x12ff, hashed_group = [[0x62]], range_group = []\<rparr> = 1"
  using DocKey_CompareTo_matches_byte_order [OF example_decode_inverts_encode
      example_order_preserving example_group_end_sorts_first,
      of "\<lparr>hash_present = False, hash = 0, hashed_group = [], range_group = [[0x63]]\<rparr>"
         "\<lparr>hash_present = False, hash = 0, hashed_group = [], range_group = [[0x63], [0x01]]\<rparr>"]
    DocKey_CompareTo_matches_byte_order [OF example_decode_inverts_encode
      example_order_preserving example_group_end_sorts_first,
      of "\<lparr>hash_present = True, hash = 0x1300, hashed_group = [[0x61]], range_group = [[0x63]]\<rparr>"
         "\<lparr>hash_present = True, hash = 0x12ff, hashed_group = [[0x62]], range_group = []\<rparr>"]
    example_decode_inverts_encode example_order_preserving example_group_end_sorts_first
  by (simp add: DocKey_CompareTo_def CompareUsingLessThan_def example_codec_def)

section \<open>Hybrid times sort in reverse\<close>

text \<open>
  Claim C3 says that for two SubDocKeys with equal \<open>doc_key\<close> and equal subkeys, the one
  with the larger hybrid time compares as smaller. For \<open>doc_key\<close>s equal by
  \<^verbatim>\<open>operator==\<close> and equal subkeys (a primitive value comparing equal to itself),
  \<^verbatim>\<open>SubDocKey::CompareTo\<close> returns exactly the negated comparison of the hybrid times when
  the hash is present or the hashed groups compare equal. When the hash is absent and the
  hashed groups compare unequal it returns the comparison of the hashed groups, which
  \<^verbatim>\<open>DocKey::CompareTo\<close> reads although \<^verbatim>\<open>operator==\<close> does not, and the hybrid times
  are never looked at.
\<close>

theorem SubDocKey_CompareTo_of_equal_keys:
  assumes refl: "\<And>v. PrimitiveCompareTo c v v = 0"
    and dk: "DocKey_eq (doc_key a) (doc_key b)"
    and sk: "subkeys a = subkeys b"
  shows "SubDocKey_CompareTo c a b =
     (if hash_present (doc_key a) \<or>
         CompareVectors (PrimitiveCompareTo c)
           (hashed_group (doc_key a)) (hashed_group (doc_key b)) = 0
      then - HtCompareTo c (doc_ht a) (doc_ht b)
      else CompareVectors (PrimitiveCompareTo c)
           (hashed_group (doc_key a)) (hashed_group (doc_key b)))"
proof -
  from dk have r: "range_group (doc_key a) = range_group (doc_key b)"
    and hp: "hash_present (doc_key a) = hash_present (doc_key b)"
    and hh: "hash_present (doc_key a) \<Longrightarrow>
       hash (doc_key a) = hash (doc_key b) \<and> hashed_group (doc_key a) = hashed_group (doc_key b)"
    by (auto simp: DocKey_eq_def HashedComponentsEqual_def)
  have sub0: "CompareVectors (PrimitiveCompareTo c) (subkeys a) (subkeys b) = 0"
    using refl by (simp add: sk CompareVectors_same)
  have rng0: "CompareVectors (PrimitiveCompareTo c) (range_group (doc_key a))
                (range_group (doc_key b)) = 0"
    using refl by (simp add: r CompareVectors_same)
  show ?thesis
  proof (cases "hash_present (doc_key a)")
    case True
    with hh have "hash (doc_key a) = hash (doc_key b)"
      and "hashed_group (doc_key a) = hashed_group (doc_key b)" by simp_all
    then have "DocKey_CompareTo c (doc_key a) (doc_key b) = 0"
      using refl rng0
      by (simp add: DocKey_CompareTo_def CompareUsingLessThan_def CompareVectors_same)
    with True sub0 show ?thesis
      by (simp add: SubDocKey_CompareTo_def CompareToIgnoreHt_def)
  next
    case False
    then have "DocKey_CompareTo c (doc_key a) (doc_key b) =
        CompareVectors (PrimitiveCompareTo c)
           (hashed_group (doc_key a)) (hashed_group (doc_key b))"
      using rng0 by (simp add: DocKey_CompareTo_def Let_def)
    with False sub0 show ?thesis
      by (simp add: SubDocKey_CompareTo_def CompareToIgnoreHt_def Let_def)
  qed
qed

text \<open>
  With the hash present, the later version (hybrid time 9 against 5) compares as \<open>-1\<close>.
  With the hash absent and the hashed groups \<open>[02]\<close> and \<open>[01]\<close> the \<open>doc_key\<close>s are
  equal by \<^verbatim>\<open>operator==\<close> and the later version compares as \<open>1\<close>.
\<close>

theorem SubDocKey_CompareTo_of_equal_keys_witness:
  "HtCompareTo example_codec (9 :: byte) 5 = 1 \<and>
   SubDocKey_CompareTo example_codec
     \<lparr>doc_key = \<lparr>hash_present = True, hash = 0x1234, hashed_group = [[0x61]], range_group = [[0x63]]\<rparr>,
      subkeys = [[0x73]], doc_ht = 9\<rparr>
     \<lparr>doc_key = \<lparr>hash_present = True, hash = 0x1234, hashed_group = [[0x61]], range_group = [[0x63]]\<rparr>,
      subkeys = [[0x73]], doc_ht = 5\<rparr> = - 1 \<and>
   DocKey_eq \<lparr>hash_present = False, hash = 0, hashed_group = [[2 :: byte]], range_group = [[0x63]]\<rparr>
             \<lparr>hash_present = False, hash = 0, hashed_group = [[1]], range_group = [[0x63]]\<rparr> \<and>
   SubDocKey_CompareTo example_codec
     \<lparr>doc_key = \<lparr>hash_present = False, hash = 0, hashed_group = [[2]], range_group = [[0x63]]\<rparr>,
      subkeys = [[0x73]], doc_ht = 9\<rparr>
     \<lparr>doc_key = \<lparr>hash_present = False, hash = 0, hashed_group = [[1]], range_group = [[0x63]]\<rparr>,
      subkeys = [[0x73]], doc_ht = 5\<rparr> = 1"
proof -
  have refl: "\<And>v. PrimitiveCompareTo example_codec v v = 0"
    by (simp add: example_codec_def)
  have eq1: "DocKey_eq
      \<lparr>hash_present = True, hash = 0x1234, hashed_group = [[0x61 :: byte]], range_group = [[0x63]]\<rparr>
      \<lparr>hash_present = True, hash = 0x1234, hashed_group = [[0x61]], range_group = [[0x63]]\<rparr>"
    by (simp add: DocKey_eq_def HashedComponentsEqual_def)
  have eq2: "DocKey_eq
      \<lparr>hash_present = False, hash = 0, hashed_group = [[2 :: byte]], range_group = [[0x63]]\<rparr>
      \<lparr>hash_present = False, hash = 0, hashed_group = [[1]], range_group = [[0x63]]\<rparr>"
    by (simp add: DocKey_eq_def HashedComponentsEqual_def)
  have ht: "HtCompareTo example_codec (9 :: byte) 5 = 1"
    by (simp add: example_codec_def CompareUsingLessThan_def)
  have c: "CompareVectors (PrimitiveCompareTo example_codec) [[2]] [[1]] = 1"
    by (simp add: example_codec_def)
  from SubDocKey_CompareTo_of_equal_keys [OF refl, of
      "\<lparr>doc_key = \<lparr>hash_present = True, hash = 0x1234, hashed_group = [[0x61]], range_group = [[0x63]]\<rparr>,
        subkeys = [[0x73]], doc_ht = 9\<rparr>"
      "\<lparr>doc_key = \<lparr>hash_present = True, hash = 0x1234, hashed_group = [[0x61]], range_group = [[0x63]]\<rparr>,
        subkeys = [[0x73]], doc_ht = 5\<rparr>"]
    SubDocKey_CompareTo_of_equal_keys [OF refl, of
      "\<lparr>doc_key = \<lparr>hash_present = False, hash = 0, hashed_group = [[2]], range_group = [[0x63]]\<rparr>,
        subkeys = [[0x73]], doc_ht = 9\<rparr>"
      "\<lparr>doc_key = \<lparr>hash_present = False, hash = 0, hashed_group = [[1]], range_group = [[0x63]]\<rparr>,
        subkeys = [[0x73]], doc_ht = 5\<rparr>"]
  show ?thesis
    using eq1 eq2 ht c by simp
qed

section \<open>StartsWith\<close>

text \<open>
  Claim C5. \<^verbatim>\<open>StartsWith(prefix)\<close> is true if and only if the two \<open>doc_key\<close>s are equal
  (by \<^verbatim>\<open>operator==\<close>), and the prefix has no hybrid time or the hybrid times are equal
  and the subkey counts are equal, and the prefix has at most as many subkeys, and the
  subkeys of the prefix are a leading run of the subkeys of the key. In particular it is
  false whenever the \<open>doc_key\<close>s differ.
\<close>

theorem StartsWith_iff:
  "(StartsWith c k pre \<longleftrightarrow>
      DocKey_eq (doc_key k) (doc_key pre) \<and>
      (\<not> has_hybrid_time c pre \<or>
       (doc_ht k = doc_ht pre \<and> length (subkeys pre) = length (subkeys k))) \<and>
      length (subkeys pre) \<le> length (subkeys k) \<and>
      prefix (subkeys pre) (subkeys k)) \<and>
   (\<not> DocKey_eq (doc_key k) (doc_key pre) \<longrightarrow> \<not> StartsWith c k pre)"
  by (simp add: StartsWith_def num_subkeys_def mismatch_prefix)

text \<open>\<open>SubDocKey(doc, [a, b], ht)\<close> starts with \<open>SubDocKey(doc, [a], none)\<close>, and
  not with the same prefix under another hash.\<close>

theorem StartsWith_iff_witness:
  "StartsWith example_codec
     \<lparr>doc_key = \<lparr>hash_present = True, hash = 0x1234, hashed_group = [[0x61]], range_group = [[0x63]]\<rparr>,
      subkeys = [[0x61], [0x62]], doc_ht = 9\<rparr>
     \<lparr>doc_key = \<lparr>hash_present = True, hash = 0x1234, hashed_group = [[0x61]], range_group = [[0x63]]\<rparr>,
      subkeys = [[0x61]], doc_ht = kInvalid example_codec\<rparr> \<and>
   \<not> StartsWith example_codec
     \<lparr>doc_key = \<lparr>hash_present = True, hash = 0x1234, hashed_group = [[0x61]], range_group = [[0x63]]\<rparr>,
      subkeys = [[0x61], [0x62]], doc_ht = 9\<rparr>
     \<lparr>doc_key = \<lparr>hash_present = True, hash = 0x1235, hashed_group = [[0x61]], range_group = [[0x63]]\<rparr>,
      subkeys = [[0x61]], doc_ht = kInvalid example_codec\<rparr>"
  using StartsWith_iff [of example_codec
     "\<lparr>doc_key = \<lparr>hash_present = True, hash = 0x1234, hashed_group = [[0x61]], range_group = [[0x63]]\<rparr>,
      subkeys = [[0x61], [0x62]], doc_ht = 9\<rparr>"
     "\<lparr>doc_key = \<lparr>hash_present = True, hash = 0x1234, hashed_group = [[0x61]], range_group = [[0x63]]\<rparr>,
      subkeys = [[0x61]], doc_ht = kInvalid example_codec\<rparr>"]
    StartsWith_iff [of example_codec
     "\<lparr>doc_key = \<lparr>hash_present = True, hash = 0x1234, hashed_group = [[0x61]], range_group = [[0x63]]\<rparr>,
      subkeys = [[0x61], [0x62]], doc_ht = 9\<rparr>"
     "\<lparr>doc_key = \<lparr>hash_present = True, hash = 0x1235, hashed_group = [[0x61]], range_group = [[0x63]]\<rparr>,
      subkeys = [[0x61]], doc_ht = kInvalid example_codec\<rparr>"]
  by (simp add: DocKey_eq_def HashedComponentsEqual_def has_hybrid_time_def)

section \<open>The key behind a sub-document\<close>

lemma DocKey_eq_Encode: "DocKey_eq k1 k2 \<Longrightarrow> DocKey_Encode c k1 = DocKey_Encode c k2"
  by (auto simp: DocKey_eq_def HashedComponentsEqual_def DocKey_Encode_eq)

lemma below_max_byte:
  assumes "max_byte_sorts_last c"
  obtains t p where "AppendToKey c v = t # p" "t < kMaxByte c"
proof -
  from assms have "case AppendToKey c v of [] \<Rightarrow> False | t # _ \<Rightarrow> t < kMaxByte c"
    unfolding max_byte_sorts_last_def by blast
  then show thesis using that by (cases "AppendToKey c v") auto
qed

text \<open>What can follow the encoded subkeys of a key: more subkeys and a hybrid time.\<close>

lemma byte_compare_max_byte:
  assumes mx: "max_byte_sorts_last c"
  shows "byte_compare (concat (map (AppendToKey c) extra) @
           (if with_ht then [kHybridTime c] @ HtEncode c ht else [])) [kMaxByte c] = - 1"
proof (cases extra)
  case Nil
  from mx have "kHybridTime c < kMaxByte c" by (simp add: max_byte_sorts_last_def)
  with Nil show ?thesis by simp
next
  case (Cons v vs)
  obtain t p where "AppendToKey c v = t # p" "t < kMaxByte c"
    using mx by (rule below_max_byte)
  with Cons show ?thesis by simp
qed

text \<open>
  Claim C4. \<^verbatim>\<open>AdvanceOutOfSubDoc\<close> of a SubDocKey \<open>k\<close> is the encoding of \<open>k\<close> without
  the hybrid time followed by the \<open>MaxByte\<close> tag, and, \<open>MaxByte\<close> being above the
  \<open>HybridTime\<close> tag and every primitive tag, it is strictly greater in the byte order
  than the encoding (with or without hybrid time) of every SubDocKey \<open>k'\<close> that equals
  \<open>k\<close> or lies under it: \<open>k'\<close> has the \<open>doc_key\<close> of \<open>k\<close> (by \<^verbatim>\<open>operator==\<close>), subkeys
  that start with those of \<open>k\<close>, and any hybrid time.
\<close>

theorem AdvanceOutOfSubDoc_sorts_after:
  assumes mx: "max_byte_sorts_last c"
    and dk: "DocKey_eq (doc_key k') (doc_key k)"
    and sk: "prefix (subkeys k) (subkeys k')"
  shows "AdvanceOutOfSubDoc c k = SubDocKey_Encode c k False @ [kMaxByte c] \<and>
         byte_compare (SubDocKey_Encode c k' include_hybrid_time) (AdvanceOutOfSubDoc c k) < 0"
proof -
  from sk obtain extra where extra: "subkeys k' = subkeys k @ extra"
    by (auto simp: prefix_def)
  let ?P = "DocKey_Encode c (doc_key k) @ concat (map (AppendToKey c) (subkeys k))"
  have adv: "AdvanceOutOfSubDoc c k = ?P @ [kMaxByte c]"
    by (simp add: AdvanceOutOfSubDoc_def SubDocKey_Encode_def AppendSubkeys_eq AppendValueType_def)
  have enc: "SubDocKey_Encode c k' include_hybrid_time =
      ?P @ (concat (map (AppendToKey c) extra) @
        (if has_hybrid_time c k' \<and> include_hybrid_time
         then [kHybridTime c] @ HtEncode c (doc_ht k') else []))"
    by (simp add: SubDocKey_Encode_def AppendSubkeys_eq AppendDocHybridTime_def extra
        DocKey_eq_Encode [OF dk] Let_def)
  have "byte_compare (SubDocKey_Encode c k' include_hybrid_time) (AdvanceOutOfSubDoc c k) = - 1"
    unfolding adv enc byte_compare_append_same by (rule byte_compare_max_byte [OF mx])
  moreover have "AdvanceOutOfSubDoc c k = SubDocKey_Encode c k False @ [kMaxByte c]"
    by (simp add: AdvanceOutOfSubDoc_def AppendValueType_def)
  ultimately show ?thesis by simp
qed

theorem AdvanceOutOfSubDoc_sorts_after_witness:
  "max_byte_sorts_last example_codec \<and>
   DocKey_eq \<lparr>hash_present = True, hash = 0x1234, hashed_group = [[0x61 :: byte]], range_group = [[0x63]]\<rparr>
             \<lparr>hash_present = True, hash = 0x1234, hashed_group = [[0x61]], range_group = [[0x63]]\<rparr> \<and>
   prefix [[0x73 :: byte]] [[0x73], [0xff, 0xff]] \<and>
   AdvanceOutOfSubDoc example_codec
     \<lparr>doc_key = \<lparr>hash_present = True, hash = 0x1234, hashed_group = [[0x61]], range_group = [[0x63]]\<rparr>,
      subkeys = [[0x73]], doc_ht = 5\<rparr> =
     [0x48, 0x12, 0x34, 0x24, 0x61, 0, 0, 0x21, 0x24, 0x63, 0, 0, 0x21, 0x24, 0x73, 0, 0, 0xff] \<and>
   SubDocKey_Encode example_codec
     \<lparr>doc_key = \<lparr>hash_present = True, hash = 0x1234, hashed_group = [[0x61]], range_group = [[0x63]]\<rparr>,
      subkeys = [[0x73], [0xff, 0xff]], doc_ht = 9\<rparr> True =
     [0x48, 0x12, 0x34, 0x24, 0x61, 0, 0, 0x21, 0x24, 0x63, 0, 0, 0x21, 0x24, 0x73, 0, 0,
      0x24, 0xff, 0xff, 0, 0, 0x23, 0xf6] \<and>
   byte_compare
     (SubDocKey_Encode example_codec
        \<lparr>doc_key = \<lparr>hash_present = True, hash = 0x1234, hashed_group = [[0x61]], range_group = [[0x63]]\<rparr>,
         subkeys = [[0x73], [0xff, 0xff]], doc_ht = 9\<rparr> True)
     (AdvanceOutOfSubDoc example_codec
        \<lparr>doc_key = \<lparr>hash_present = True, hash = 0x1234, hashed_group = [[0x61]], range_group = [[0x63]]\<rparr>,
         subkeys = [[0x73]], doc_ht = 5\<rparr>) < 0"
proof -
  have dk: "DocKey_eq \<lparr>hash_present = True, hash = 0x1234, hashed_group = [[0x61 :: byte]], range_group = [[0x63]]\<rparr>
             \<lparr>hash_present = True, hash = 0x1234, hashed_group = [[0x61]], range_group = [[0x63]]\<rparr>"
    by (simp add: DocKey_eq_def HashedComponentsEqual_def)
  have sk: "prefix [[0x73 :: byte]] [[0x73], [0xff, 0xff]]"
    by simp
  have enc: "SubDocKey_Encode example_codec
     \<lparr>doc_key = \<lparr>hash_present = True, hash = 0x1234, hashed_group = [[0x61]], range_group = [[0x63]]\<rparr>,
      subkeys = [[0x73], [0xff, 0xff]], doc_ht = 9\<rparr> True =
     [0x48, 0x12, 0x34, 0x24, 0x61, 0, 0, 0x21, 0x24, 0x63, 0, 0, 0x21, 0x24, 0x73, 0, 0,
      0x24, 0xff, 0xff, 0, 0, 0x23, 0xf6]"
    by (simp add: SubDocKey_Encode_def DocKey_Encode_eq AppendDocHybridTime_def has_hybrid_time_def
        example_codec_def)
  have adv: "AdvanceOutOfSubDoc example_codec
     \<lparr>doc_key = \<lparr>hash_present = True, hash = 0x1234, hashed_group = [[0x61]], range_group = [[0x63]]\<rparr>,
      subkeys = [[0x73]], doc_ht = 5\<rparr> =
     [0x48, 0x12, 0x34, 0x24, 0x61, 0, 0, 0x21, 0x24, 0x63, 0, 0, 0x21, 0x24, 0x73, 0, 0, 0xff]"
    by (simp add: AdvanceOutOfSubDoc_def AppendValueType_def SubDocKey_Encode_def DocKey_Encode_eq
        example_codec_def)
  have "AdvanceOutOfSubDoc example_codec
        \<lparr>doc_key = \<lparr>hash_present = True, hash = 0x1234, hashed_group = [[0x61]], range_group = [[0x63]]\<rparr>,
         subkeys = [[0x73]], doc_ht = 5\<rparr> =
      SubDocKey_Encode example_codec
        \<lparr>doc_key = \<lparr>hash_present = True, hash = 0x1234, hashed_group = [[0x61]], range_group = [[0x63]]\<rparr>,
         subkeys = [[0x73]], doc_ht = 5\<rparr> False @ [kMaxByte example_codec] \<and>
    byte_compare
     (SubDocKey_Encode example_codec
        \<lparr>doc_key = \<lparr>hash_present = True, hash = 0x1234, hashed_group = [[0x61]], range_group = [[0x63]]\<rparr>,
         subkeys = [[0x73], [0xff, 0xff]], doc_ht = 9\<rparr> True)
     (AdvanceOutOfSubDoc example_codec
        \<lparr>doc_key = \<lparr>hash_present = True, hash = 0x1234, hashed_group = [[0x61]], range_group = [[0x63]]\<rparr>,
         subkeys = [[0x73]], doc_ht = 5\<rparr>) < 0"
    by (rule AdvanceOutOfSubDoc_sorts_after [OF example_max_byte_sorts_last])
      (simp_all add: DocKey_eq_def HashedComponentsEqual_def)
  then have "byte_compare
     (SubDocKey_Encode example_codec
        \<lparr>doc_key = \<lparr>hash_present = True, hash = 0x1234, hashed_group = [[0x61]], range_group = [[0x63]]\<rparr>,
         subkeys = [[0x73], [0xff, 0xff]], doc_ht = 9\<rparr> True)
     (AdvanceOutOfSubDoc example_codec
        \<lparr>doc_key = \<lparr>hash_present = True, hash = 0x1234, hashed_group = [[0x61]], range_group = [[0x63]]\<rparr>,
         subkeys = [[0x73]], doc_ht = 5\<rparr>) < 0"
    by (rule conjunct2)
  then show ?thesis
    using example_max_byte_sorts_last dk sk enc adv by (simp only: simp_thms)
qed

section \<open>Inputs that end too early\<close>

text \<open>
  Claim C7 says that decoding a DocKey from any input that ends too early returns a
  Corruption status and never reads behind the input. On the empty slice \<^verbatim>\<open>DoDecode\<close>
  does so (``Document key is empty''). On the slice that holds only the \<open>IntentPrefix\<close>
  byte it does not: it consumes that byte and then reads the first value type from the
  slice that is now empty.
\<close>

theorem DoDecode_intent_prefix_only:
  "DoDecode c [] part key = Some (Inl (Corruption ''Document key is empty''), []) \<and>
   DoDecode c [kIntentPrefix c] part key = Some (Inl ReadPastEnd, [])"
  by (simp add: DoDecode_def)

text \<open>The one byte \<open>0a\<close> with the example codec.\<close>

theorem DoDecode_intent_prefix_only_witness:
  "DoDecode example_codec [0x0a] WHOLE_DOC_KEY
     \<lparr>hash_present = False, hash = 0, hashed_group = [], range_group = []\<rparr> =
   Some (Inl ReadPastEnd, [])"
  using DoDecode_intent_prefix_only [of example_codec WHOLE_DOC_KEY
     "\<lparr>hash_present = False, hash = 0, hashed_group = [], range_group = []\<rparr>"]
  by (simp add: example_codec_def)

section \<open>The status of FullyDecodeFrom\<close>

text \<open>
  Claim C8 says that a Corruption of the decoder is what the caller of
  \<^verbatim>\<open>FullyDecodeFrom\<close> gets, and that InvalidArgument is returned exactly when decoding
  succeeds and leaves bytes. \<^verbatim>\<open>FullyDecodeFrom\<close> tests the slice before it looks at the
  status: whenever \<^verbatim>\<open>DecodeFrom\<close> fails, with any status, and leaves bytes in the slice,
  the caller gets InvalidArgument and the status of the decoder is lost.
\<close>

theorem FullyDecodeFrom_masks_failed_decode:
  assumes "DecodeFrom c sl WHOLE_DOC_KEY key = Some (Inl e, rest)" and "rest \<noteq> []"
  shows "DocKey_FullyDecodeFrom c sl key = Some (Inl (InvalidArgument
     ''Expected all bytes of the slice to be decoded into DocKey, found extra bytes''))"
  using assms by (simp add: DocKey_FullyDecodeFrom_def)

text \<open>A key cut off inside its hash: the decoder reports Corruption and consumes
  nothing, the caller is told InvalidArgument.\<close>

theorem FullyDecodeFrom_masks_failed_decode_witness:
  "DecodeFrom example_codec [0x48, 0x12] WHOLE_DOC_KEY
     \<lparr>hash_present = False, hash = 0, hashed_group = [], range_group = []\<rparr> =
   Some (Inl (Corruption ''Could not decode a 16-bit hash component of a document key''),
         [0x48, 0x12]) \<and>
   DocKey_FullyDecodeFrom example_codec [0x48, 0x12]
     \<lparr>hash_present = False, hash = 0, hashed_group = [], range_group = []\<rparr> =
   Some (Inl (InvalidArgument
     ''Expected all bytes of the slice to be decoded into DocKey, found extra bytes''))"
proof -
  have d: "DecodeFrom example_codec [0x48, 0x12] WHOLE_DOC_KEY
     \<lparr>hash_present = False, hash = 0, hashed_group = [], range_group = []\<rparr> =
   Some (Inl (Corruption ''Could not decode a 16-bit hash component of a document key''),
         [0x48, 0x12])"
    by (simp add: DecodeFrom_def DoDecode_def example_codec_def)
  have "[0x48, 0x12 :: byte] \<noteq> []" by simp
  with d show ?thesis
    using FullyDecodeFrom_masks_failed_decode [OF d] by simp
qed

section \<open>The projection of keys for the filter\<close>

text \<open>
  Claim C9. For two DocKeys with the hash present, the same hash and the same hashed
  group, whatever their range groups, \<^verbatim>\<open>Transform\<close> gives the same projected key for
  both encodings: the leading bytes of the encoding that hold the hash tag, the hash, the
  hashed components and the \<open>GroupEnd\<close> that closes them, as many bytes as
  \<^verbatim>\<open>EncodedSize\<close> with \<open>HASHED_PART_ONLY\<close> returns.
\<close>

theorem Transform_hashed_components:
  assumes dec: "primitive_decode_inverts_encode c" and tags: "tags_decodable c"
    and p1: "hash_present k1" and p2: "hash_present k2"
    and h: "hash k1 = hash k2" and g: "hashed_group k1 = hashed_group k2"
  shows "Transform c (DocKey_Encode c k1) =
           Some (Inr ([kUInt16Hash c, ucast (drop_bit 8 (hash k1)), ucast (hash k1)] @
                      concat (map (AppendToKey c) (hashed_group k1)) @ [kGroupEnd c])) \<and>
         EncodedSize c (DocKey_Encode c k1) HASHED_PART_ONLY =
           Some (Inr (length ([kUInt16Hash c, ucast (drop_bit 8 (hash k1)), ucast (hash k1)] @
                      concat (map (AppendToKey c) (hashed_group k1)) @ [kGroupEnd c]))) \<and>
         Transform c (DocKey_Encode c k2) = Transform c (DocKey_Encode c k1)"
proof -
  have size: "EncodedSize c (DocKey_Encode c k) HASHED_PART_ONLY =
      Some (Inr (length ([kUInt16Hash c, ucast (drop_bit 8 (hash k)), ucast (hash k)] @
                      concat (map (AppendToKey c) (hashed_group k)) @ [kGroupEnd c])))"
    if "hash_present k" for k
    using that DoDecode_encoded_hashed_part [OF dec tags, of k "[]"]
    by (simp add: EncodedSize_def DocKey_Encode_eq)
  have tr: "Transform c (DocKey_Encode c k) =
      Some (Inr ([kUInt16Hash c, ucast (drop_bit 8 (hash k)), ucast (hash k)] @
                      concat (map (AppendToKey c) (hashed_group k)) @ [kGroupEnd c]))"
    if "hash_present k" for k
    using that by (simp add: Transform_def size) (simp add: DocKey_Encode_eq)
  show ?thesis
    using size [OF p1] tr [OF p1] tr [OF p2] by (simp add: h g)
qed

text \<open>Two keys of one partition with different range groups.\<close>

theorem Transform_hashed_components_witness:
  "primitive_decode_inverts_encode example_codec \<and> tags_decodable example_codec \<and>
   Transform example_codec
     (DocKey_Encode example_codec
        \<lparr>hash_present = True, hash = 0x1234, hashed_group = [[0x61, 0x61], [0x62, 0x62]],
         range_group = [[0x63, 0x63], [0x64, 0x64]]\<rparr>) =
     Some (Inr [0x48, 0x12, 0x34, 0x24, 0x61, 0x61, 0, 0, 0x24, 0x62, 0x62, 0, 0, 0x21]) \<and>
   EncodedSize example_codec
     (DocKey_Encode example_codec
        \<lparr>hash_present = True, hash = 0x1234, hashed_group = [[0x61, 0x61], [0x62, 0x62]],
         range_group = [[0x63, 0x63], [0x64, 0x64]]\<rparr>) HASHED_PART_ONLY = Some (Inr 14) \<and>
   Transform example_codec
     (DocKey_Encode example_codec
        \<lparr>hash_present = True, hash = 0x1234, hashed_group = [[0x61, 0x61], [0x62, 0x62]],
         range_group = [[0x65]]\<rparr>) =
   Transform example_codec
     (DocKey_Encode example_codec
        \<lparr>hash_present = True, hash = 0x1234, hashed_group = [[0x61, 0x61], [0x62, 0x62]],
         range_group = [[0x63, 0x63], [0x64, 0x64]]\<rparr>)"
  using Transform_hashed_components [OF example_decode_inverts_encode example_tags_decodable,
      of "\<lparr>hash_present = True, hash = 0x1234, hashed_group = [[0x61, 0x61], [0x62, 0x62]],
         range_group = [[0x63, 0x63], [0x64, 0x64]]\<rparr>"
         "\<lparr>hash_present = True, hash = 0x1234, hashed_group = [[0x61, 0x61], [0x62, 0x62]],
         range_group = [[0x65]]\<rparr>"]
    example_decode_inverts_encode example_tags_decodable
  by (simp add: example_codec_def)

text \<open>
  Claim C10, as amended. For the encoding of a DocKey without a hash, \<^verbatim>\<open>EncodedSize\<close>
  with \<open>HASHED_PART_ONLY\<close> consumes no byte and \<^verbatim>\<open>Transform\<close> gives the empty key;
  behind a leading \<open>IntentPrefix\<close> it consumes that one byte and \<^verbatim>\<open>Transform\<close> gives
  the one-byte key that holds it. So two keys without a hash get the same projected key
  whenever both or neither start with \<open>IntentPrefix\<close>.
\<close>

theorem hash_absent_projection:
  assumes tags: "tags_decodable c" and absent: "\<not> hash_present k"
  shows "EncodedSize c (DocKey_Encode c k) HASHED_PART_ONLY = Some (Inr 0) \<and>
         Transform c (DocKey_Encode c k) = Some (Inr []) \<and>
         EncodedSize c (kIntentPrefix c # DocKey_Encode c k) HASHED_PART_ONLY = Some (Inr 1) \<and>
         Transform c (kIntentPrefix c # DocKey_Encode c k) = Some (Inr [kIntentPrefix c])"
proof -
  obtain b bs where b: "concat (map (AppendToKey c) (range_group k)) @ kGroupEnd c # [] = b # bs"
    "b \<noteq> kIntentPrefix c" "b \<noteq> kUInt16Hash c" "IsPrimitiveValueType c b \<or> b = kGroupEnd c"
    using tags by (rule range_bytes_first)
  from absent b(1) have enc: "DocKey_Encode c k = b # bs"
    by (simp add: DocKey_Encode_eq)
  have d0: "DoDecode c (b # bs) HASHED_PART_ONLY key = Some (Inr (SetHash False 0 key), b # bs)" for key
    using b(2-4) by (auto simp: DoDecode_def DoDecode_part_def)
  have d1: "DoDecode c (kIntentPrefix c # b # bs) HASHED_PART_ONLY key
      = Some (Inr (SetHash False 0 key), b # bs)" for key
    using b(2-4) by (auto simp: DoDecode_def DoDecode_part_def)
  have s0: "EncodedSize c (b # bs) HASHED_PART_ONLY = Some (Inr 0)"
    by (simp add: EncodedSize_def d0)
  have s1: "EncodedSize c (kIntentPrefix c # b # bs) HASHED_PART_ONLY = Some (Inr 1)"
    by (simp add: EncodedSize_def d1)
  show ?thesis
    unfolding enc by (simp add: Transform_def s0 s1)
qed

text \<open>A key with two range components, bare and behind \<open>0a\<close>.\<close>

theorem hash_absent_projection_witness:
  "tags_decodable example_codec \<and>
   EncodedSize example_codec
     (DocKey_Encode example_codec
        \<lparr>hash_present = False, hash = 0, hashed_group = [], range_group = [[0x63], [0x64]]\<rparr>)
     HASHED_PART_ONLY = Some (Inr 0) \<and>
   Transform example_codec
     (DocKey_Encode example_codec
        \<lparr>hash_present = False, hash = 0, hashed_group = [], range_group = [[0x63], [0x64]]\<rparr>) =
     Some (Inr []) \<and>
   EncodedSize example_codec
     (0x0a # DocKey_Encode example_codec
        \<lparr>hash_present = False, hash = 0, hashed_group = [], range_group = [[0x63], [0x64]]\<rparr>)
     HASHED_PART_ONLY = Some (Inr 1) \<and>
   Transform example_codec
     (0x0a # DocKey_Encode example_codec
        \<lparr>hash_present = False, hash = 0, hashed_group = [], range_group = [[0x63], [0x64]]\<rparr>) =
     Some (Inr [0x0a])"
  using hash_absent_projection [OF example_tags_decodable,
      of "\<lparr>hash_present = False, hash = 0, hashed_group = [], range_group = [[0x63], [0x64]]\<rparr>"]
    example_tags_decodable
  by (simp add: example_codec_def)

text \<open>
  Claim C10 as stated fails for the keys it counts with one consumed byte: behind an
  \<open>IntentPrefix\<close> a key without a hash is projected to the key of that one byte, which
  is not the empty key that a bare key without a hash is projected to.
\<close>

theorem intent_prefix_projection_counterexample:
  "Transform example_codec
     (kIntentPrefix example_codec # DocKey_Encode example_codec
        \<lparr>hash_present = False, hash = 0, hashed_group = [], range_group = [[0x63]]\<rparr>) =
     Some (Inr [0x0a]) \<and>
   Transform example_codec
     (DocKey_Encode example_codec
        \<lparr>hash_present = False, hash = 0, hashed_group = [], range_group = [[0x64]]\<rparr>) =
     Some (Inr [])"
  by (simp add: Transform_def EncodedSize_def DoDecode_def DoDecode_part_def DocKey_Encode_eq
      example_codec_def)

section \<open>Further properties of the decoder\<close>

lemma prepend_ReadPastEnd: "prepend p e = ReadPastEnd \<longleftrightarrow> e = ReadPastEnd"
  by (cases e) simp_all

lemma Consume_reads_inside_aux:
  assumes run: "ConsumePrimitiveValuesFromKey c sl acc = Some y"
  shows "(\<forall>s. fst (DecodeKey c s) \<noteq> Inl ReadPastEnd) \<longrightarrow> fst y \<noteq> Inl ReadPastEnd"
proof (rule ConsumePrimitiveValuesFromKey.raw_induct
    [where P = "\<lambda>c sl acc y. (\<forall>s. fst (DecodeKey c s) \<noteq> Inl ReadPastEnd) \<longrightarrow>
                  fst y \<noteq> Inl ReadPastEnd", OF _ run], goal_cases)
  case (1 f c sl acc y)
  show ?case
  proof
    assume dk: "\<forall>s. fst (DecodeKey c s) \<noteq> Inl ReadPastEnd"
    show "fst y \<noteq> Inl ReadPastEnd"
    proof (cases sl)
      case Nil
      with 1(2) show ?thesis by auto
    next
      case (Cons t rest)
      show ?thesis
      proof (cases "DecodeKey c sl")
        case (Pair r sl')
        from dk have r: "r \<noteq> Inl ReadPastEnd"
          using Pair by (metis fst_conv)
        show ?thesis
        proof (cases r)
          case (Inl e)
          with r have "e \<noteq> ReadPastEnd" by simp
          with 1(2) Cons Pair Inl show ?thesis
            by (auto simp: prepend_ReadPastEnd split: if_splits)
        next
          case (Inr v)
          with 1(2) Cons Pair have
            "y = (Inr acc, rest) \<or> y = (Inl (Corruption ''Expected a primitive value type''), sl)
              \<or> f c sl' (acc @ [v]) = Some y"
            by (auto split: if_splits)
          then show ?thesis
            using 1(1) [of c sl' "acc @ [v]" y] dk by auto
        qed
      qed
    qed
  qed
qed

lemma Consume_reads_inside:
  assumes "\<And>s. fst (DecodeKey c s) \<noteq> Inl ReadPastEnd"
    and "ConsumePrimitiveValuesFromKey c sl acc = Some (r, rest)"
  shows "r \<noteq> Inl ReadPastEnd"
  using Consume_reads_inside_aux [OF assms(2)] assms(1) by simp

lemma DoDecode_part_reads_inside:
  assumes "\<And>s. fst (DecodeKey c s) \<noteq> Inl ReadPastEnd"
    and "DoDecode_part c part sl key = Some (r, rest)"
  shows "r \<noteq> Inl ReadPastEnd"
proof (cases part)
  case WHOLE_DOC_KEY
  show ?thesis
  proof (cases "ConsumePrimitiveValuesFromKey c sl (range_group key)")
    case None
    with assms(2) WHOLE_DOC_KEY show ?thesis by (simp add: DoDecode_part_def)
  next
    case (Some y)
    obtain r' rest' where y: "y = (r', rest')" by (cases y)
    from Consume_reads_inside [OF assms(1)] Some y have "r' \<noteq> Inl ReadPastEnd" by blast
    with assms(2) WHOLE_DOC_KEY Some y show ?thesis
      by (cases r') (auto simp: DoDecode_part_def prepend_ReadPastEnd)
  qed
next
  case HASHED_PART_ONLY
  with assms(2) show ?thesis by (auto simp: DoDecode_part_def)
qed

lemma DoDecode_hash_reads_inside:
  assumes dk: "\<And>s. fst (DecodeKey c s) \<noteq> Inl ReadPastEnd"
    and run: "(case ConsumePrimitiveValuesFromKey c sl1 acc of
                 None \<Rightarrow> None
               | Some (Inl e, sl2) \<Rightarrow> Some (Inl (prepend p e), sl2)
               | Some (Inr vs, sl2) \<Rightarrow> DoDecode_part c part sl2 (g vs)) = Some (r, rest)"
  shows "r \<noteq> Inl ReadPastEnd"
proof (cases "ConsumePrimitiveValuesFromKey c sl1 acc")
  case None
  with run show ?thesis by simp
next
  case (Some y)
  obtain r' rest' where y: "y = (r', rest')" by (cases y)
  from Consume_reads_inside [OF dk] Some y have r': "r' \<noteq> Inl ReadPastEnd" by blast
  show ?thesis
  proof (cases r')
    case (Inl e)
    with run Some y r' show ?thesis by (auto simp: prepend_ReadPastEnd)
  next
    case (Inr vs)
    with run Some y have "DoDecode_part c part rest' (g vs) = Some (r, rest)" by simp
    then show ?thesis by (rule DoDecode_part_reads_inside [OF dk])
  qed
qed

lemma push_front_ReadPastEnd:
  "fst (push_front x r) = Inl ReadPastEnd \<longleftrightarrow> fst r = Inl ReadPastEnd"
  by (cases r; cases "fst r") (auto simp: push_front_def)

lemma ZeroDecode_reads_inside: "fst (ZeroDecode s) \<noteq> Inl ReadPastEnd"
proof (induction s rule: ZeroDecode.induct)
  case 1
  show ?case by simp
next
  case (2 x rest)
  show ?case
  proof (cases "x \<noteq> 0")
    case True
    with 2(1) show ?thesis by (simp add: push_front_ReadPastEnd)
  next
    case False
    show ?thesis
    proof (cases rest)
      case Nil
      with False show ?thesis by simp
    next
      case (Cons y rest')
      with False 2(2) [of y rest'] show ?thesis
        by (simp add: push_front_ReadPastEnd)
    qed
  qed
qed

lemma example_DecodeKey_reads_inside: "fst (DecodeKey example_codec s) \<noteq> Inl ReadPastEnd"
  by (cases s) (simp_all add: example_codec_def example_DecodeKey_def ZeroDecode_reads_inside)

text \<open>
  If the primitive decoder itself never reads behind its slice, the slice that holds only
  the \<open>IntentPrefix\<close> byte is the one input on which \<^verbatim>\<open>DoDecode\<close> does: every other
  read of the slice, in \<^verbatim>\<open>DoDecode\<close> and in \<^verbatim>\<open>ConsumePrimitiveValuesFromKey\<close>, is behind
  a test of its size.
\<close>

theorem DoDecode_reads_past_end_only_after_intent_prefix:
  assumes dk: "\<And>s. fst (DecodeKey c s) \<noteq> Inl ReadPastEnd"
    and run: "DoDecode c sl part key = Some (Inl ReadPastEnd, rest)"
  shows "sl = [kIntentPrefix c]"
proof (cases sl)
  case Nil
  with run show ?thesis by (simp add: DoDecode_def)
next
  case (Cons b0 after_b0)
  show ?thesis
  proof (cases "if b0 = kIntentPrefix c then after_b0 else sl")
    case Nil
    with Cons show ?thesis by (auto split: if_splits)
  next
    case tail: (Cons t more)
    from run Cons tail show ?thesis
      by (auto simp: DoDecode_def Let_def split: if_splits
          dest: DoDecode_hash_reads_inside [OF dk] DoDecode_part_reads_inside [OF dk])
  qed
qed

theorem DoDecode_reads_past_end_only_after_intent_prefix_witness:
  "DoDecode example_codec [0x0a] HASHED_PART_ONLY
     \<lparr>hash_present = False, hash = 0, hashed_group = [], range_group = []\<rparr> =
     Some (Inl ReadPastEnd, []) \<and>
   [0x0a] = [kIntentPrefix example_codec]"
proof -
  have run: "DoDecode example_codec [0x0a] HASHED_PART_ONLY
     \<lparr>hash_present = False, hash = 0, hashed_group = [], range_group = []\<rparr> =
     Some (Inl ReadPastEnd, [])"
    by (simp add: DoDecode_def example_codec_def)
  from DoDecode_reads_past_end_only_after_intent_prefix [OF example_DecodeKey_reads_inside run]
  show ?thesis using run by simp
qed

text \<open>
  \<^verbatim>\<open>FullyDecodeFrom\<close> returns OK exactly when \<^verbatim>\<open>DecodeFrom\<close> returns OK and leaves the
  slice empty.
\<close>

theorem FullyDecodeFrom_ok_iff:
  "DocKey_FullyDecodeFrom c sl key = Some (Inr k') \<longleftrightarrow>
   DecodeFrom c sl WHOLE_DOC_KEY key = Some (Inr k', [])"
  by (auto simp: DocKey_FullyDecodeFrom_def split: option.splits prod.splits if_splits)

theorem FullyDecodeFrom_ok_iff_witness:
  "DocKey_FullyDecodeFrom example_codec [0x24, 0x63, 0, 0, 0x21]
     \<lparr>hash_present = False, hash = 0, hashed_group = [], range_group = []\<rparr> =
   Some (Inr \<lparr>hash_present = False, hash = 0xdead, hashed_group = [], range_group = [[0x63]]\<rparr>)"
proof -
  have "DecodeFrom example_codec [0x24, 0x63, 0, 0, 0x21] WHOLE_DOC_KEY
     \<lparr>hash_present = False, hash = 0, hashed_group = [], range_group = []\<rparr> =
   Some (Inr \<lparr>hash_present = False, hash = 0xdead, hashed_group = [], range_group = [[0x63]]\<rparr>, [])"
    by code_simp
  then show ?thesis
    by (simp only: FullyDecodeFrom_ok_iff)
qed

text \<open>
  Keys with the same encoding are equal by \<^verbatim>\<open>operator==\<close>: the encoding decodes
  unambiguously.
\<close>

theorem DocKey_Encode_injective:
  assumes dec: "primitive_decode_inverts_encode c" and tags: "tags_decodable c"
    and eq: "DocKey_Encode c k1 = DocKey_Encode c k2"
  shows "DocKey_eq k1 k2"
proof -
  let ?key = "\<lparr>hash_present = False, hash = 0, hashed_group = [], range_group = []\<rparr>"
  have "DoDecode c (DocKey_Encode c k1 @ []) WHOLE_DOC_KEY ?key =
        DoDecode c (DocKey_Encode c k2 @ []) WHOLE_DOC_KEY ?key"
    by (simp only: eq)
  then show ?thesis
    unfolding DoDecode_encoded_whole [OF dec tags]
    by (auto simp: DocKey_eq_def HashedComponentsEqual_def split: if_splits)
qed

theorem DocKey_Encode_injective_witness:
  "primitive_decode_inverts_encode example_codec \<and> tags_decodable example_codec \<and>
   DocKey_Encode example_codec
     \<lparr>hash_present = False, hash = 1, hashed_group = [[0x61]], range_group = [[0x63]]\<rparr> =
   DocKey_Encode example_codec
     \<lparr>hash_present = False, hash = 2, hashed_group = [], range_group = [[0x63]]\<rparr> \<and>
   DocKey_eq
     \<lparr>hash_present = False, hash = 1, hashed_group = [[0x61 :: byte]], range_group = [[0x63]]\<rparr>
     \<lparr>hash_present = False, hash = 2, hashed_group = [], range_group = [[0x63]]\<rparr>"
proof -
  have eq: "DocKey_Encode example_codec
     \<lparr>hash_present = False, hash = 1, hashed_group = [[0x61]], range_group = [[0x63]]\<rparr> =
   DocKey_Encode example_codec
     \<lparr>hash_present = False, hash = 2, hashed_group = [], range_group = [[0x63]]\<rparr>"
    by (simp add: DocKey_Encode_eq)
  from DocKey_Encode_injective [OF example_decode_inverts_encode example_tags_decodable eq]
  show ?thesis
    using example_decode_inverts_encode example_tags_decodable eq by (simp only: simp_thms)
qed

text \<open>
  On the encoding of a DocKey followed by any bytes (the subkeys and the hybrid time of a
  SubDocKey, say), \<^verbatim>\<open>EncodedSize\<close> of the whole key is the length of the encoding.
\<close>

theorem EncodedSize_whole_key:
  assumes dec: "primitive_decode_inverts_encode c" and tags: "tags_decodable c"
  shows "EncodedSize c (DocKey_Encode c k @ rest) WHOLE_DOC_KEY =
         Some (Inr (length (DocKey_Encode c k)))"
  by (simp add: EncodedSize_def DoDecode_encoded_whole [OF dec tags])

theorem EncodedSize_whole_key_witness:
  "primitive_decode_inverts_encode example_codec \<and> tags_decodable example_codec \<and>
   EncodedSize example_codec
     (DocKey_Encode example_codec
        \<lparr>hash_present = True, hash = 0x1234, hashed_group = [[0x61]], range_group = [[0x63]]\<rparr> @
      [0x24, 0x73, 0, 0, 0x23, 0xf6]) WHOLE_DOC_KEY = Some (Inr 13)"
  using EncodedSize_whole_key [OF example_decode_inverts_encode example_tags_decodable,
      of "\<lparr>hash_present = True, hash = 0x1234, hashed_group = [[0x61]], range_group = [[0x63]]\<rparr>"
         "[0x24, 0x73, 0, 0, 0x23, 0xf6]"]
    example_decode_inverts_encode example_tags_decodable
  by (simp add: DocKey_Encode_eq example_codec_def)

end
